theory Spec2Isabelle
  imports Main
begin

section \<open>Python strings and exceptions\<close>

text \<open>
  A Python \<open>str\<close> is modelled as a \<open>string\<close>, one \<open>char\<close> per code point (so the
  model covers the code points below 256). Every exception the modelled code can raise is
  a value of \<open>error\<close>; a function that may raise returns \<open>error + 'a\<close>.
\<close>

datatype error =
  IndexError | AssertionError | KeyError | ValueError | AttributeError | TypeError

definition newline :: char where
  "newline = CHR 0x0A"

definition space :: char where
  "space = CHR '' ''"

text \<open>\<open>str.isspace\<close> on one code point below 256: 9..13, 28..32, 133 and 160.\<close>

definition isspace :: "char \<Rightarrow> bool" where
  "isspace c = (of_char c \<in> {9, 10, 11, 12, 13, 28, 29, 30, 31, 32, 133, 160 :: nat})"

definition lstrip :: "string \<Rightarrow> string" where
  "lstrip s = dropWhile isspace s"

definition rstrip :: "string \<Rightarrow> string" where
  "rstrip s = rev (dropWhile isspace (rev s))"

definition strip :: "string \<Rightarrow> string" where
  "strip s = lstrip (rstrip s)"

definition startswith :: "string \<Rightarrow> string \<Rightarrow> bool" where
  "startswith s p = (take (length p) s = p)"

section \<open>The description-block rejoiner\<close>

text \<open>
  \<open>re.findall(r".{1,n}", s)\<close> and, with \<open>sp\<close> set, \<open>re.findall(r".{1,n} ?", s)\<close>:
  scanning from the left, a match takes as many characters other than the line feed as it
  can, \<open>n\<close> at most, and then one space if \<open>sp\<close> is set and a space follows; a line feed
  where a match would start is skipped.
\<close>

function findall_chunks :: "nat \<Rightarrow> bool \<Rightarrow> string \<Rightarrow> string list" where
  "findall_chunks n sp [] = []"
| "findall_chunks n sp (c # cs) =
     (if c = newline \<or> n = 0 then findall_chunks n sp cs
      else (case drop (length (takeWhile (\<lambda>x. x \<noteq> newline) (take (n - 1) cs))) cs of
              [] \<Rightarrow> [c # takeWhile (\<lambda>x. x \<noteq> newline) (take (n - 1) cs)]
            | x # rest \<Rightarrow>
                if sp \<and> x = space
                then (c # takeWhile (\<lambda>x. x \<noteq> newline) (take (n - 1) cs) @ [space])
                       # findall_chunks n sp rest
                else (c # takeWhile (\<lambda>x. x \<noteq> newline) (take (n - 1) cs))
                       # findall_chunks n sp (x # rest)))"
  by pat_completeness auto
termination
proof (relation "measure (\<lambda>(n, sp, s). length s)", goal_cases)
  case 1
  then show ?case by simp
next
  case (2 n sp c cs)
  then show ?case by simp
next
  case (3 n sp c cs x rest)
  have "length (x # rest) \<le> length cs"
    unfolding 3(2)[symmetric] by simp
  then show ?case by simp
next
  case (4 n sp c cs x rest)
  have "length (x # rest) \<le> length cs"
    unfolding 4(2)[symmetric] by simp
  then show ?case by simp
qed

text \<open>
  \<open>rejoin_description\<close>: \<open>s[32]\<close> raises IndexError on a string of at most 32
  characters; the two \<open>assert\<close> statements raise AssertionError.
\<close>

definition rejoin_description :: "string \<Rightarrow> error + string" where
  "rejoin_description s =
     (if startswith s ''/'' then Inr s
      else if length s \<le> 32 then Inl IndexError
      else if s ! 32 \<noteq> space then Inl AssertionError
      else if \<not> list_all (\<lambda>p. length p = 65)
                   (butlast (findall_chunks 64 True (rstrip (drop 33 s))))
           then Inl AssertionError
      else Inr (concat (take 32 s # map (take 64) (findall_chunks 64 True (rstrip (drop 33 s))))))"

text \<open>
  The spacing pattern of the export, written from its description: the 32-character head,
  a space, then the rest cut into 64-character display lines joined by single spaces.
  \<open>rejoin_description\<close> is meant to undo \<open>respace\<close>.
\<close>

function display_lines :: "nat \<Rightarrow> string \<Rightarrow> string list" where
  "display_lines n s = (if n = 0 \<or> s = [] then [] else take n s # display_lines n (drop n s))"
  by pat_completeness auto
termination
  by (relation "measure (\<lambda>(n, s). length s)") auto

fun join_with_space :: "string list \<Rightarrow> string" where
  "join_with_space [] = []"
| "join_with_space [x] = x"
| "join_with_space (x # y # ys) = x @ [space] @ join_with_space (y # ys)"

definition respace :: "string \<Rightarrow> string" where
  "respace u = take 32 u @ [space] @ join_with_space (display_lines 64 (drop 32 u))"

section \<open>Helpers of the description decoder\<close>

text \<open>
  A Python \<open>dict\<close> from strings to strings is an association list in insertion order
  with distinct keys: \<open>dict_set\<close> is \<open>d[k] = v\<close> (a key already there keeps its place
  and takes the new value), \<open>dict_of\<close> is \<open>dict(pairs)\<close>, \<open>dict_update\<close> is
  \<open>{**d, **e}\<close> and \<open>map_of\<close> reads a key.
\<close>

type_synonym pydict = "(string \<times> string) list"

fun dict_set :: "pydict \<Rightarrow> string \<Rightarrow> string \<Rightarrow> pydict" where
  "dict_set [] k v = [(k, v)]"
| "dict_set ((k', v') # d) k v =
     (if k' = k then (k, v) # d else (k', v') # dict_set d k v)"

definition dict_update :: "pydict \<Rightarrow> (string \<times> string) list \<Rightarrow> pydict" where
  "dict_update d kvs = foldl (\<lambda>d (k, v). dict_set d k v) d kvs"

definition dict_of :: "(string \<times> string) list \<Rightarrow> pydict" where
  "dict_of kvs = dict_update [] kvs"

text \<open>\<open>s.split(sep)\<close> for a one-character separator, and \<open>re.split\<close> on a character class.\<close>

fun split_by :: "(char \<Rightarrow> bool) \<Rightarrow> string \<Rightarrow> string list" where
  "split_by P [] = [[]]"
| "split_by P (x # xs) =
     (if P x then [] # split_by P xs
      else (case split_by P xs of
              [] \<Rightarrow> [[x]]
            | y # ys \<Rightarrow> (x # y) # ys))"

definition split_on :: "char \<Rightarrow> string \<Rightarrow> string list" where
  "split_on c s = split_by (\<lambda>x. x = c) s"

text \<open>\<open>s.partition(sep)\<close>: the text before the first \<open>sep\<close>, the separator found, the rest.\<close>

fun partition_at :: "string \<Rightarrow> string \<Rightarrow> string \<times> string \<times> string" where
  "partition_at sep [] = ([], [], [])"
| "partition_at sep (c # cs) =
     (if startswith (c # cs) sep then ([], sep, drop (length sep) (c # cs))
      else (case partition_at sep cs of (a, m, b) \<Rightarrow> (c # a, m, b)))"

text \<open>\<open>s.replace(",", ".")\<close> and \<open>re.sub(r" +", " ", s)\<close>.\<close>

definition comma_to_dot :: "string \<Rightarrow> string" where
  "comma_to_dot s = map (\<lambda>c. if c = CHR '','' then CHR ''.'' else c) s"

fun collapse_spaces :: "string \<Rightarrow> string" where
  "collapse_spaces (c # d # cs) =
     (if c = space \<and> d = space then collapse_spaces (d # cs)
      else c # collapse_spaces (d # cs))"
| "collapse_spaces cs = cs"

text \<open>Running a fallible function over a list stops at the first exception.\<close>

fun map_err :: "('a \<Rightarrow> error + 'b) \<Rightarrow> 'a list \<Rightarrow> error + 'b list" where
  "map_err f [] = Inr []"
| "map_err f (x # xs) =
     (case f x of
        Inl e \<Rightarrow> Inl e
      | Inr y \<Rightarrow> (case map_err f xs of Inl e \<Rightarrow> Inl e | Inr ys \<Rightarrow> Inr (y # ys)))"

subsection \<open>Integers, dates and times of the Python library\<close>

definition isdigit :: "char \<Rightarrow> bool" where
  "isdigit c = (48 \<le> (of_char c :: nat) \<and> (of_char c :: nat) \<le> 57)"

definition digit_char :: "nat \<Rightarrow> char" where
  "digit_char d = char_of (48 + d)"

fun str_nat :: "nat \<Rightarrow> string" where
  "str_nat n = (if n < 10 then [digit_char n] else str_nat (n div 10) @ [digit_char (n mod 10)])"

declare str_nat.simps [simp del]

definition zfill :: "nat \<Rightarrow> string \<Rightarrow> string" where
  "zfill w s = replicate (w - length s) (CHR ''0'') @ s"

definition digits_value :: "string \<Rightarrow> int" where
  "digits_value ds = foldl (\<lambda>n c. 10 * n + (of_char c - 48)) 0 ds"

text \<open>
  \<open>int(s)\<close> on a string: surrounding whitespace is ignored, one sign may lead, and single
  underscores may separate digits. The whitespace \<open>int\<close> ignores is not that of
  \<open>str.isspace\<close>: below 256 it is 9..13, 32, 133 and 160, without the separators
  28..31. (The interpreter's limit on the number of digits is not modelled.)
\<close>

definition int_isspace :: "char \<Rightarrow> bool" where
  "int_isspace c = (of_char c \<in> {9, 10, 11, 12, 13, 32, 133, 160 :: nat})"

fun int_body_ok :: "string \<Rightarrow> bool" where
  "int_body_ok [] = False"
| "int_body_ok [c] = isdigit c"
| "int_body_ok (c # d # cs) =
     (isdigit c \<and> (if d = CHR ''_'' then int_body_ok cs else int_body_ok (d # cs)))"

definition py_int :: "string \<Rightarrow> error + int" where
  "py_int s =
     (let t = rev (dropWhile int_isspace (rev (dropWhile int_isspace s)));
          neg = (t \<noteq> [] \<and> hd t = CHR ''-'');
          body = (if t \<noteq> [] \<and> (hd t = CHR ''-'' \<or> hd t = CHR ''+'') then tl t else t)
      in if int_body_ok body
         then Inr ((if neg then - 1 else 1) * digits_value (filter (\<lambda>c. c \<noteq> CHR ''_'') body))
         else Inl ValueError)"

definition is_leap :: "int \<Rightarrow> bool" where
  "is_leap y = (y mod 4 = 0 \<and> (y mod 100 \<noteq> 0 \<or> y mod 400 = 0))"

definition days_in_month :: "int \<Rightarrow> int \<Rightarrow> int" where
  "days_in_month y m =
     (if m = 2 then (if is_leap y then 29 else 28)
      else if m = 4 \<or> m = 6 \<or> m = 9 \<or> m = 11 then 30 else 31)"

record pydate =
  year :: int
  month :: int
  day :: int

text \<open>\<open>datetime.date(y, m, d)\<close> raises ValueError outside years 1..9999 and the calendar.\<close>

definition mk_date :: "int \<Rightarrow> int \<Rightarrow> int \<Rightarrow> error + pydate" where
  "mk_date y m d =
     (if 1 \<le> y \<and> y \<le> 9999 \<and> 1 \<le> m \<and> m \<le> 12 \<and> 1 \<le> d \<and> d \<le> days_in_month y m
      then Inr \<lparr>year = y, month = m, day = d\<rparr>
      else Inl ValueError)"

record pydatetime = pydate +
  hour :: int
  minute :: int

definition mk_datetime :: "int \<Rightarrow> int \<Rightarrow> int \<Rightarrow> int \<Rightarrow> int \<Rightarrow> error + pydatetime" where
  "mk_datetime y m d hh mm =
     (if 1 \<le> y \<and> y \<le> 9999 \<and> 1 \<le> m \<and> m \<le> 12 \<and> 1 \<le> d \<and> d \<le> days_in_month y m
         \<and> 0 \<le> hh \<and> hh \<le> 23 \<and> 0 \<le> mm \<and> mm \<le> 59
      then Inr \<lparr>year = y, month = m, day = d, hour = hh, minute = mm\<rparr>
      else Inl ValueError)"

text \<open>\<open>isoformat()\<close> of a date, and of a datetime whose seconds are zero.\<close>

definition date_isoformat :: "'a pydate_scheme \<Rightarrow> string" where
  "date_isoformat d =
     zfill 4 (str_nat (nat (year d))) @ ''-'' @ zfill 2 (str_nat (nat (month d)))
       @ ''-'' @ zfill 2 (str_nat (nat (day d)))"

definition datetime_isoformat :: "pydatetime \<Rightarrow> string" where
  "datetime_isoformat t =
     date_isoformat t @ ''T'' @ zfill 2 (str_nat (nat (hour t))) @ '':''
       @ zfill 2 (str_nat (nat (minute t))) @ '':00''"

section \<open>The description decoder\<close>

subsection \<open>Slash-separated descriptions\<close>

definition tag_names :: "string list" where
  "tag_names = [''TRTP'', ''CSID'', ''NAME'', ''REMI'', ''MARF'', ''EREF'', ''IBAN'', ''BIC'',
                ''ORDP'', ''ID'']"

text \<open>\<open>re.fullmatch(r"TRTP|CSID|NAME|REMI|MARF|EREF|IBAN|BIC|ORDP|ID", p)\<close>\<close>

definition is_tag :: "string \<Rightarrow> bool" where
  "is_tag p = (p \<in> set tag_names)"

definition key_map :: "(string \<times> string) list" where
  "key_map = [(''TRTP'', ''type''), (''CSID'', ''Incassant''), (''NAME'', ''Naam''),
              (''REMI'', ''Omschrijving''), (''MARF'', ''Machtiging''), (''EREF'', ''Kenmerk''),
              (''IBAN'', ''IBAN''), (''BIC'', ''BIC''), (''ORDP'', ''''), (''ID'', '''')]"

text \<open>
  One round of the loop over \<open>s[1:].split("/")\<close>: at an even length a tag is appended and
  anything else is glued to the last value (\<open>parts.pop()\<close> raises IndexError on the empty
  list); at an odd length the segment is the value of the tag that precedes it.
\<close>

definition slash_step :: "string list \<Rightarrow> string \<Rightarrow> error + string list" where
  "slash_step parts p =
     (if even (length parts) then
        (if is_tag p then Inr (parts @ [p])
         else if parts = [] then Inl IndexError
         else Inr (butlast parts @ [last parts @ ''/'' @ p]))
      else Inr (parts @ [p]))"

fun slash_loop :: "string list \<Rightarrow> string list \<Rightarrow> error + string list" where
  "slash_loop parts [] = Inr parts"
| "slash_loop parts (p # ps) =
     (case slash_step parts p of
        Inl e \<Rightarrow> Inl e
      | Inr parts' \<Rightarrow> slash_loop parts' ps)"

text \<open>
  The pairs \<open>(key_map[k], v.rstrip())\<close> over \<open>batched(parts, 2)\<close> with
  \<open>key_map[k] != ""\<close>: unpacking a last batch of one element raises ValueError, a key
  missing from \<open>key_map\<close> raises KeyError.
\<close>

fun slash_items :: "string list \<Rightarrow> error + (string \<times> string) list" where
  "slash_items [] = Inr []"
| "slash_items [k] = Inl ValueError"
| "slash_items (k # v # rest) =
     (case map_of key_map k of
        None \<Rightarrow> Inl KeyError
      | Some name \<Rightarrow>
          (case slash_items rest of
             Inl e \<Rightarrow> Inl e
           | Inr items \<Rightarrow> Inr (if name \<noteq> '''' then (name, rstrip v) # items else items)))"

text \<open>\<open>data["type"]\<close> raises KeyError when no TRTP tag was given.\<close>

definition slash_finish :: "pydict \<Rightarrow> error + pydict" where
  "slash_finish data =
     (case map_of data ''type'' of
        None \<Rightarrow> Inl KeyError
      | Some t \<Rightarrow> Inr (if t = ''iDEAL'' then dict_set data ''type'' ''SEPA iDEAL'' else data))"

definition parse_slashes :: "string \<Rightarrow> error + pydict" where
  "parse_slashes s =
     (case slash_loop [] (split_on (CHR ''/'') (drop 1 s)) of
        Inl e \<Rightarrow> Inl e
      | Inr parts \<Rightarrow>
          (case slash_items parts of
             Inl e \<Rightarrow> Inl e
           | Inr items \<Rightarrow> slash_finish (dict_of items)))"

subsection \<open>Bank fees\<close>

definition amount_char :: "char \<Rightarrow> bool" where
  "amount_char c = (isdigit c \<or> c = CHR ''-'' \<or> c = CHR '','' \<or> c = CHR ''.'')"

text \<open>
  \<open>re.fullmatch(r"^(.*[^ ]) +([-0-9,.]+)$", p)\<close>: the amount is what follows the last
  space, the label what precedes the spaces in front of it.
\<close>

definition match_cost :: "string \<Rightarrow> (string \<times> string) option" where
  "match_cost p =
     (let v = rev (takeWhile (\<lambda>c. c \<noteq> space) (rev p));
          front = rev (dropWhile (\<lambda>c. c \<noteq> space) (rev p));
          k = rev (dropWhile (\<lambda>c. c = space) (rev front))
      in if front = [] \<or> v = [] \<or> \<not> list_all amount_char v \<or> k = []
            \<or> newline \<in> set (butlast k)
         then None else Some (k, v))"

definition cost_item :: "string \<Rightarrow> error + (string \<times> string)" where
  "cost_item p =
     (case match_cost p of
        None \<Rightarrow> Inl AttributeError
      | Some (k, v) \<Rightarrow> Inr (k, comma_to_dot v))"

definition parse_bank_fees :: "string \<Rightarrow> string \<Rightarrow> error + pydict" where
  "parse_bank_fees head tail =
     (case map_err cost_item (findall_chunks 32 False tail) of
        Inl e \<Rightarrow> Inl e
      | Inr costs \<Rightarrow> Inr (dict_update [(''type'', head)] (dict_of costs)))"

subsection \<open>Card payments and cash withdrawals\<close>

definition dt_char :: "char \<Rightarrow> bool" where
  "dt_char c = (isdigit c \<or> c = CHR ''.'' \<or> c = CHR ''/'' \<or> c = CHR '':'')"

text \<open>
  \<open>parse_nr_datetime\<close>: every way it fails (a part that is no integer, a number of parts
  other than five, a date or time out of range) is a ValueError.
\<close>

definition parse_nr_datetime :: "string \<Rightarrow> error + pydatetime" where
  "parse_nr_datetime s =
     (case map_err py_int
             (split_by (\<lambda>c. c = CHR ''-'' \<or> c = CHR '':'' \<or> c = CHR ''.'' \<or> c = CHR ''/'')
                (strip s)) of
        Inl e \<Rightarrow> Inl e
      | Inr [dd, mm, yy, HH, MM] \<Rightarrow> mk_datetime (2000 + yy) mm dd HH MM
      | Inr _ \<Rightarrow> Inl ValueError)"

text \<open>\<open>re.fullmatch(r"^(BEA) +NR:([^ ]+) +([0-9./:]+)$", head)\<close>\<close>

definition match_bea_head :: "string \<Rightarrow> (string \<times> string \<times> string) option" where
  "match_bea_head h =
     (let r1 = drop 3 h;
          r2 = dropWhile (\<lambda>c. c = space) r1;
          r3 = drop 3 r2;
          nr = takeWhile (\<lambda>c. c \<noteq> space) r3;
          r4 = dropWhile (\<lambda>c. c \<noteq> space) r3;
          dt = dropWhile (\<lambda>c. c = space) r4
      in if startswith h ''BEA'' \<and> r2 \<noteq> r1 \<and> startswith r2 ''NR:'' \<and> nr \<noteq> [] \<and> r4 \<noteq> []
            \<and> dt \<noteq> [] \<and> list_all dt_char dt
         then Some (''BEA'', nr, dt) else None)"

text \<open>\<open>re.fullmatch(r"^NR:([^, ]+)[, ]+([0-9./:]+) *", nr_and_date)\<close>\<close>

definition match_nr_and_date :: "string \<Rightarrow> (string \<times> string) option" where
  "match_nr_and_date s =
     (let r1 = drop 3 s;
          nr = takeWhile (\<lambda>c. c \<noteq> CHR '','' \<and> c \<noteq> space) r1;
          r2 = dropWhile (\<lambda>c. c \<noteq> CHR '','' \<and> c \<noteq> space) r1;
          r3 = dropWhile (\<lambda>c. c = CHR '','' \<or> c = space) r2;
          dt = takeWhile dt_char r3;
          r4 = dropWhile dt_char r3
      in if startswith s ''NR:'' \<and> nr \<noteq> [] \<and> r3 \<noteq> r2 \<and> dt \<noteq> []
            \<and> list_all (\<lambda>c. c = space) r4
         then Some (nr, dt) else None)"

definition card_fields ::
  "string \<Rightarrow> pydatetime \<Rightarrow> string \<Rightarrow> string \<Rightarrow> string \<Rightarrow> string \<Rightarrow> pydict" where
  "card_fields type dt nr name_and_card location suffix =
     (case partition_at '',PAS'' name_and_card of
        (name, _, pas) \<Rightarrow>
          dict_of [(''type'', type), (''datetime'', datetime_isoformat dt), (''NR'', nr),
                   (''Naam'', rstrip name), (''card'', rstrip pas),
                   (''location'', rstrip location), (''suffix'', rstrip suffix)])"

definition parse_bea_legacy :: "string \<Rightarrow> string \<Rightarrow> error + pydict" where
  "parse_bea_legacy head tail =
     (case match_bea_head head of
        None \<Rightarrow> Inl AttributeError
      | Some (type, nr, dtstr) \<Rightarrow>
          (case parse_nr_datetime dtstr of
             Inl e \<Rightarrow> Inl e
           | Inr dt \<Rightarrow>
               Inr (card_fields type dt nr (take 32 tail) (take 32 (drop 32 tail))
                      (drop 64 tail))))"

definition parse_card :: "string \<Rightarrow> string \<Rightarrow> error + pydict" where
  "parse_card head tail =
     (case match_nr_and_date (take 32 (drop 32 tail)) of
        None \<Rightarrow> Inl AttributeError
      | Some (nr, dtstr) \<Rightarrow>
          (case parse_nr_datetime dtstr of
             Inl e \<Rightarrow> Inl e
           | Inr dt \<Rightarrow>
               Inr (card_fields head dt nr (take 32 tail) (take 32 (drop 64 tail))
                      (drop 96 tail))))"

subsection \<open>Online transfers\<close>

definition sepa_keys :: "string list" where
  "sepa_keys = [''Incassant'', ''BIC'', ''Naam'', ''Machtiging'', ''Omschrijving'', ''IBAN'',
                ''Kenmerk'', ''Voor'']"

text \<open>
  \<open>re.fullmatch(r"^(Incassant|BIC|Naam|Machtiging|Omschrijving|IBAN|Kenmerk|Voor): (.+)", t)\<close>
\<close>

definition match_sepa :: "string \<Rightarrow> (string \<times> string) option" where
  "match_sepa t =
     (case find (\<lambda>k. startswith t (k @ '': '')) sepa_keys of
        None \<Rightarrow> None
      | Some k \<Rightarrow>
          (let v = drop (length k + 2) t
           in if v \<noteq> [] \<and> newline \<notin> set v then Some (k, v) else None))"

definition sepa_step ::
  "(string \<times> string) list \<Rightarrow> string \<Rightarrow> error + (string \<times> string) list" where
  "sepa_step parts t =
     (case match_sepa t of
        Some kv \<Rightarrow> Inr (parts @ [kv])
      | None \<Rightarrow>
          if parts = [] then Inl IndexError
          else Inr (butlast parts @ [(fst (last parts), snd (last parts) @ t)]))"

fun sepa_loop ::
  "(string \<times> string) list \<Rightarrow> string list \<Rightarrow> error + (string \<times> string) list" where
  "sepa_loop parts [] = Inr parts"
| "sepa_loop parts (t # ts) =
     (case sepa_step parts t of
        Inl e \<Rightarrow> Inl e
      | Inr parts' \<Rightarrow> sepa_loop parts' ts)"

definition parse_sepa :: "string \<Rightarrow> string \<Rightarrow> error + pydict" where
  "parse_sepa head tail =
     (case sepa_loop [] (findall_chunks 32 False tail) of
        Inl e \<Rightarrow> Inl e
      | Inr parts \<Rightarrow>
          Inr (dict_update [(''type'', head)] (dict_of (map (\<lambda>(k, v). (k, strip v)) parts))))"

subsection \<open>The dispatch\<close>

text \<open>
  \<open>parse_description\<close> tries the formats in the order of the source; \<open>re.match\<close> of a
  pattern that is a literal text after \<open>^\<close> is \<open>startswith\<close> on the head. The last
  branch also prints a notice, which has no part in the result.
\<close>

definition parse_description :: "string \<Rightarrow> error + pydict" where
  "parse_description s =
     (if startswith s ''/'' then parse_slashes s
      else
        (let head = rstrip (take 32 s); tail = rstrip (drop 32 s)
         in if startswith s ''ABN AMRO Bank'' then parse_bank_fees head tail
            else if startswith head ''BEA '' then parse_bea_legacy head tail
            else if startswith head ''BEA, '' \<or> startswith head ''GEA, ''
              then parse_card head tail
            else if startswith head ''SEPA '' then parse_sepa head tail
            else if startswith head ''CREDIT INTEREST''
              then Inr (dict_of [(''type'', ''Basic interest''), (''description'', tail)])
            else if startswith head ''Basic interest''
              then Inr (dict_of [(''type'', head), (''description'', collapse_spaces tail)])
            else if startswith head ''Maandpremie ''
                    \<or> startswith head ''Uitbetaling pakketkorting''
                    \<or> startswith head ''PAKKETVERZ. POLISNR.''
              then Inr (dict_of [(''type'', ''legacy insurance''),
                                 (''description'', collapse_spaces (head @ '' '' @ tail))])
            else Inr (dict_of [(''type'', head), (''description'', tail)])))"

subsection \<open>What a slash-separated description stands for\<close>

text \<open>
  Written from the description of the format, to compare the decoder with: a description
  is a list of tag/value pairs, where a value may itself hold slashes, so it is given as
  its slash-free segments, none of which but the first may be a tag. \<open>render_pairs\<close> is
  the text of such a list. \<open>expected_fields\<close> is the mapping it stands for: each tag but
  ORDP and ID gives its field the value with the segments joined by slashes and trailing
  whitespace stripped, a later pair of the same tag replaces an earlier one, and the type
  \<open>iDEAL\<close> reads \<open>SEPA iDEAL\<close>.
\<close>

fun join_slash :: "string list \<Rightarrow> string" where
  "join_slash [] = []"
| "join_slash [v] = v"
| "join_slash (v # w # ws) = v @ ''/'' @ join_slash (w # ws)"

definition render_pairs :: "(string \<times> string list) list \<Rightarrow> string" where
  "render_pairs kvs = concat (map (\<lambda>(t, vs). ''/'' @ t @ concat (map (\<lambda>v. ''/'' @ v) vs)) kvs)"

definition wf_pairs :: "(string \<times> string list) list \<Rightarrow> bool" where
  "wf_pairs kvs =
     list_all (\<lambda>(t, vs). is_tag t \<and> vs \<noteq> []
                 \<and> list_all (\<lambda>v. CHR ''/'' \<notin> set v) vs
                 \<and> list_all (\<lambda>v. \<not> is_tag v) (tl vs)) kvs"

definition field_name :: "string \<Rightarrow> string" where
  "field_name t = (case map_of key_map t of None \<Rightarrow> [] | Some n \<Rightarrow> n)"

definition rewrite_ideal :: "string \<Rightarrow> string \<Rightarrow> string" where
  "rewrite_ideal n v = (if n = ''type'' \<and> v = ''iDEAL'' then ''SEPA iDEAL'' else v)"

definition expected_fields :: "(string \<times> string list) list \<Rightarrow> (string \<rightharpoonup> string)" where
  "expected_fields kvs =
     map_of (rev (map (\<lambda>(t, vs). (field_name t, rewrite_ideal (field_name t) (rstrip (join_slash vs))))
                    (filter (\<lambda>(t, vs). t \<noteq> ''ORDP'' \<and> t \<noteq> ''ID'') kvs)))"

text \<open>The elements of \<open>parts\<close> at the tag positions (the even indices).\<close>

fun tags_of :: "string list \<Rightarrow> string list" where
  "tags_of [] = []"
| "tags_of [k] = [k]"
| "tags_of (k # v # rest) = k # tags_of rest"

text \<open>The segments of such a list, and what the loop of the decoder makes of them.\<close>

definition segments :: "(string \<times> string list) list \<Rightarrow> string list" where
  "segments kvs = concat (map (\<lambda>(t, vs). t # vs) kvs)"

definition joined :: "(string \<times> string list) list \<Rightarrow> string list" where
  "joined kvs = concat (map (\<lambda>(t, vs). [t, join_slash vs]) kvs)"

text \<open>The field names a slash-separated description can give.\<close>

definition field_names :: "string list" where
  "field_names = [''type'', ''Incassant'', ''Naam'', ''Omschrijving'', ''Machtiging'',
                  ''Kenmerk'', ''IBAN'', ''BIC'']"

section \<open>Money\<close>

text \<open>
  The amount of a \<open>Money\<close> is a \<open>decimal.Decimal\<close>. A finite Decimal is a sign, a
  coefficient and an exponent and stands for \<open>\<plusminus> coefficient * 10 ^ exponent\<close>; the
  special values (infinities, NaN) are not modelled. \<open>==\<close> on Decimals compares the
  numbers they stand for, so \<open>1.0 == 1.00\<close> and \<open>-0 == 0\<close>.
\<close>

record decimal =
  negative :: bool
  coefficient :: nat
  exponent :: int



text \<open>
  A \<open>Money\<close> is an amount and a currency; a \<open>Currency\<close> is compared by its code, and
  two \<open>Money\<close> values are equal when their amounts and their currencies are.
\<close>

record Money =
  money_amount :: decimal
  money_currency :: string


text \<open>
  \<open>"{:.2f}".format(d)\<close> on a Decimal: the number is brought to the exponent \<open>-2\<close>, with
  zeros appended or with the digits beyond the cents rounded off in the rounding mode of
  the decimal context, which is ROUND_HALF_EVEN unless a program changes it (this one does
  not): \<open>round_half_even c p\<close> is \<open>c / p\<close> rounded to the nearest integer, a tie going
  to the even one. The sign is printed for negative numbers, also for a negative zero.
\<close>

definition round_half_even :: "nat \<Rightarrow> nat \<Rightarrow> nat" where
  "round_half_even c p =
     (if p < 2 * (c mod p) \<or> (2 * (c mod p) = p \<and> odd (c div p)) then c div p + 1 else c div p)"

definition cents :: "decimal \<Rightarrow> nat" where
  "cents d =
     (if - 2 \<le> exponent d then coefficient d * 10 ^ nat (exponent d + 2)
      else round_half_even (coefficient d) (10 ^ nat (- 2 - exponent d)))"

definition format_2f :: "decimal \<Rightarrow> string" where
  "format_2f d =
     (if negative d then ''-'' else '''') @ str_nat (cents d div 100) @ ''.''
       @ zfill 2 (str_nat (cents d mod 100))"

definition money_format :: "Money \<Rightarrow> string" where
  "money_format m = format_2f (money_amount m)"

text \<open>
  For comparison, the rounding the description of the output asks for: half a cent is
  rounded up (away from zero).
\<close>

definition round_half_up :: "nat \<Rightarrow> nat \<Rightarrow> nat" where
  "round_half_up c p = (if p \<le> 2 * (c mod p) then c div p + 1 else c div p)"

definition cents_half_up :: "decimal \<Rightarrow> nat" where
  "cents_half_up d =
     (if - 2 \<le> exponent d then coefficient d * 10 ^ nat (exponent d + 2)
      else round_half_up (coefficient d) (10 ^ nat (- 2 - exponent d)))"

definition money_format_half_up :: "Money \<Rightarrow> string" where
  "money_format_half_up m =
     (if negative (money_amount m) then ''-'' else '''')
       @ str_nat (cents_half_up (money_amount m) div 100) @ ''.''
       @ zfill 2 (str_nat (cents_half_up (money_amount m) mod 100))"

section \<open>An instance of the library functions\<close>

text \<open>
  The models of the two readers take the functions of the Python library they call as
  parameters. To run them on examples, here is what these functions give on plain input:
  a date of eight digits, and a decimal number written as an optional sign, digits and an
  optional fraction.
\<close>

definition plain_date :: "string \<Rightarrow> error + pydate" where
  "plain_date s =
     (if length s = 8 \<and> list_all isdigit s
      then mk_date (digits_value (take 4 s)) (digits_value (take 2 (drop 4 s)))
             (digits_value (drop 6 s))
      else Inl ValueError)"

definition plain_decimal :: "string \<Rightarrow> error + decimal" where
  "plain_decimal s =
     (let neg = startswith s ''-'';
          body = (if neg \<or> startswith s ''+'' then drop 1 s else s);
          ip = takeWhile isdigit body;
          rest = dropWhile isdigit body;
          fp = drop 1 rest
      in if ip \<noteq> [] \<and> (rest = [] \<or> (startswith rest ''.'' \<and> list_all isdigit fp))
         then Inr \<lparr>negative = neg, coefficient = nat (digits_value (ip @ fp)),
                   exponent = - int (length fp)\<rparr>
         else Inl ValueError)"

section \<open>The credit-card statements\<close>

subsection \<open>Dates of the Python library\<close>

text \<open>
  \<open>date.toordinal()\<close>: the number of the day, day 1 being 1 January of year 1. The
  difference of two dates is the difference of their ordinals, in days.
\<close>

definition days_before_year :: "int \<Rightarrow> int" where
  "days_before_year y = (y - 1) * 365 + (y - 1) div 4 - (y - 1) div 100 + (y - 1) div 400"

definition days_before_month :: "int \<Rightarrow> int \<Rightarrow> int" where
  "days_before_month y m = sum_list (map (days_in_month y) [1..m - 1])"

definition toordinal :: "'a pydate_scheme \<Rightarrow> int" where
  "toordinal d = days_before_year (year d) + days_before_month (year d) (month d) + day d"

definition days_between :: "'a pydate_scheme \<Rightarrow> 'b pydate_scheme \<Rightarrow> int" where
  "days_between a b = toordinal a - toordinal b"

text \<open>\<open>s.split()\<close>: the words of \<open>s\<close> between runs of whitespace.\<close>

fun split_words :: "string \<Rightarrow> string \<Rightarrow> string list" where
  "split_words word [] = (if word = [] then [] else [word])"
| "split_words word (c # cs) =
     (if isspace c then (if word = [] then split_words [] cs else word # split_words [] cs)
      else split_words (word @ [c]) cs)"

definition split_ws :: "string \<Rightarrow> string list" where
  "split_ws s = split_words [] s"

subsection \<open>Pages\<close>

definition MONTHS_SHORT :: "(string \<times> int) list" where
  "MONTHS_SHORT = [(''jan'', 1), (''feb'', 2), (''mrt'', 3), (''apr'', 4), (''mei'', 5),
                   (''jun'', 6), (''jul'', 7), (''aug'', 8), (''sep'', 9), (''okt'', 10),
                   (''nov'', 11), (''dec'', 12)]"

text \<open>
  A page: the fields the visitor fills (unset fields are \<open>None\<close>) and the table, a
  dictionary from the vertical coordinate to the row of cell texts (so its keys are
  distinct). The coordinates are numbers of the PDF; the model takes any linear order.
\<close>

record 'y Page =
  nr :: int
  date :: "pydate option"
  page_nr :: "int option"
  total_pages :: "int option"
  table :: "('y \<times> string list) list"

datatype convert_method = convert_date_method | convert_amount_method | convert_bij_af_method

record TableColumn =
  x_interval :: "int \<times> int"
  max_length :: nat
  name :: string
  convert_method :: "convert_method option"

definition COLUMNS :: "TableColumn list" where
  "COLUMNS =
     [\<lparr>x_interval = (59, 62), max_length = 6, name = ''Datum transactie'',
       convert_method = Some convert_date_method\<rparr>,
      \<lparr>x_interval = (102, 106), max_length = 6, name = ''Datum boeking'',
       convert_method = Some convert_date_method\<rparr>,
      \<lparr>x_interval = (149, 155), max_length = 24, name = ''Omschrijving'',
       convert_method = None\<rparr>,
      \<lparr>x_interval = (275, 277), max_length = 13, name = ''Description part 2'',
       convert_method = None\<rparr>,
      \<lparr>x_interval = (362, 364), max_length = 3, name = ''Country code'',
       convert_method = None\<rparr>,
      \<lparr>x_interval = (401, 440), max_length = 8, name = ''Bedrag in vreemde valuta'',
       convert_method = Some convert_amount_method\<rparr>,
      \<lparr>x_interval = (444, 446), max_length = 3, name = ''Currency code'',
       convert_method = None\<rparr>,
      \<lparr>x_interval = (478, 530), max_length = 8, name = ''Bedrag in euro's'',
       convert_method = Some convert_amount_method\<rparr>,
      \<lparr>x_interval = (535, 539), max_length = 3, name = ''Bij/Af'',
       convert_method = Some convert_bij_af_method\<rparr>]"

text \<open>
  \<open>Page.convert_date\<close>: the statements raise in the order of the source: the unpacking
  of \<open>text.split()\<close> and \<open>int(dd)\<close> ValueError, the month table KeyError, the read of
  \<open>self.date.year\<close> AttributeError on a page without a date, and each of the two calls
  of \<open>datetime.date\<close> ValueError when that day does not exist in that year.
\<close>

definition convert_date :: "('y, 'a) Page_scheme \<Rightarrow> string \<Rightarrow> error + pydate" where
  "convert_date self text =
     (case split_ws text of
        [dd, mmm] \<Rightarrow>
          (case py_int dd of Inl e \<Rightarrow> Inl e | Inr d \<Rightarrow>
          (case map_of MONTHS_SHORT mmm of None \<Rightarrow> Inl KeyError | Some m \<Rightarrow>
          (case date self of None \<Rightarrow> Inl AttributeError | Some sd \<Rightarrow>
          (case mk_date (year sd) m d of Inl e \<Rightarrow> Inl e | Inr dt1 \<Rightarrow>
          (case mk_date (year sd - 1) m d of Inl e \<Rightarrow> Inl e | Inr dt2 \<Rightarrow>
             if \<bar>days_between sd dt1\<bar> < \<bar>days_between sd dt2\<bar> then Inr dt1 else Inr dt2)))))
      | _ \<Rightarrow> Inl ValueError)"

definition convert_bij_af :: "string \<Rightarrow> error + string" where
  "convert_bij_af text =
     (case map_of [(''Bij'', ''+''), (''Af'', ''-'')] text of
        None \<Rightarrow> Inl KeyError
      | Some sign \<Rightarrow> Inr sign)"

definition convert_amount :: "string \<Rightarrow> string" where
  "convert_amount text = comma_to_dot (filter (\<lambda>c. c \<noteq> CHR ''.'') text)"

text \<open>A converted cell is a date or a string.\<close>

datatype cell = CDate pydate | CStr string

definition convert_cell_text ::
  "('y, 'a) Page_scheme \<Rightarrow> string \<Rightarrow> convert_method option \<Rightarrow> error + cell" where
  "convert_cell_text self text method =
     (if strip text = [] then Inr (CStr [])
      else (case method of
              None \<Rightarrow> Inr (CStr (strip text))
            | Some convert_date_method \<Rightarrow>
                (case convert_date self (strip text) of Inl e \<Rightarrow> Inl e | Inr d \<Rightarrow> Inr (CDate d))
            | Some convert_amount_method \<Rightarrow> Inr (CStr (convert_amount (strip text)))
            | Some convert_bij_af_method \<Rightarrow>
                (case convert_bij_af (strip text) of Inl e \<Rightarrow> Inl e | Inr s \<Rightarrow> Inr (CStr s))))"

text \<open>\<open>Page.table_as_list\<close>: the rows, from the largest coordinate to the smallest.\<close>

definition table_as_list :: "('y::linorder, 'a) Page_scheme \<Rightarrow> string list list" where
  "table_as_list self = map snd (rev (sort_key fst (table self)))"

subsection \<open>From pages to transactions\<close>

text \<open>
  The transactions of the statements. The card number is \<open>None\<close> until a card header
  was seen; the date, the descriptions and the country code are cells of the row; the
  foreign amount and the exchange rate are \<open>None\<close> on a transaction in euros. The
  exchange rate is a float of Python: the model takes its type as a parameter.
\<close>

record 'f ICS_Transaction =
  card_number :: "string option"
  date :: cell
  descriptions :: "cell list"
  country_code :: cell
  foreign_amount :: "Money option"
  exchange_rate :: "'f option"
  amount :: Money

text \<open>
  The two functions of libraries that make the values: \<open>money_of s cur\<close> is
  \<open>Money(a, c)\<close> for an amount and a currency whose texts (\<open>str\<close>) are \<open>s\<close> and
  \<open>cur\<close>, and \<open>float_of s\<close> is \<open>float(s)\<close>.
\<close>

record 'f pdf_library =
  money_of :: "string \<Rightarrow> string \<Rightarrow> error + Money"
  float_of :: "string \<Rightarrow> error + 'f"

text \<open>
  Part 1 of \<open>get_transactions_from_pages\<close>, one row: a first cell longer than the
  first column is a text across all columns (\<open>raw_row[0]\<close> raises IndexError on an empty
  row); any other row is converted cell by cell, as far as \<open>zip\<close> pairs cells with
  columns.
\<close>

definition convert_row :: "('y, 'a) Page_scheme \<Rightarrow> string list \<Rightarrow> error + cell list" where
  "convert_row page raw_row =
     (case raw_row of
        [] \<Rightarrow> Inl IndexError
      | c # cs \<Rightarrow>
          if max_length (hd COLUMNS) < length c then
            (if list_all (\<lambda>t. strip t = []) cs then Inr [CStr (strip c)] else Inl AssertionError)
          else map_err (\<lambda>(cell, col). convert_cell_text page cell (convert_method col))
                 (zip raw_row COLUMNS))"

text \<open>
  The loop over the pages, \<open>n\<close> being the number of the page at hand and
  \<open>statement_date\<close> the date of the first page: the rows of all pages, or the first
  exception.
\<close>

fun convert_pages ::
  "int \<Rightarrow> pydate option \<Rightarrow> ('y::linorder, 'a) Page_scheme list \<Rightarrow> error + cell list list" where
  "convert_pages n statement_date [] = Inr []"
| "convert_pages n statement_date (page # pages) =
     (if page_nr page \<noteq> Some n then Inl AssertionError
      else if n \<noteq> 1 \<and> statement_date \<noteq> Page.date page then Inl AssertionError
      else (case map_err (convert_row page) (table_as_list page) of
              Inl e \<Rightarrow> Inl e
            | Inr rows \<Rightarrow>
                (case convert_pages (n + 1) (if n = 1 then Page.date page else statement_date)
                        pages of
                   Inl e \<Rightarrow> Inl e
                 | Inr more_rows \<Rightarrow> Inr (rows @ more_rows))))"

text \<open>
  \<open>group_related_rows\<close> is a generator: the groups it yields and the exception that ends
  it, if any (\<open>row[0]\<close> raises IndexError on an empty row). A row whose first cell is a
  date or starts with \<open>Uw Card\<close> starts a group.
\<close>

definition starts_group :: "cell \<Rightarrow> bool" where
  "starts_group c = (case c of CDate _ \<Rightarrow> True | CStr s \<Rightarrow> startswith s ''Uw Card'')"

fun group_rows :: "cell list list \<Rightarrow> cell list list \<Rightarrow> cell list list list \<times> error option" where
  "group_rows buffer [] = (if buffer \<noteq> [] then [buffer] else [], None)"
| "group_rows buffer (row # rows) =
     (case row of
        [] \<Rightarrow> ([], Some IndexError)
      | c # _ \<Rightarrow>
          if starts_group c then
            (case group_rows [row] rows of
               (groups, e) \<Rightarrow> (if buffer \<noteq> [] then buffer # groups else groups, e))
          else group_rows (buffer @ [row]) rows)"

definition group_related_rows :: "cell list list \<Rightarrow> cell list list list \<times> error option" where
  "group_related_rows all_rows = group_rows [] all_rows"

text \<open>
  \<open>re.match(r"Uw Card met als laatste vier cijfers ([0-9]+)", s).group(1)\<close>: the digits
  after the text; without a match, \<open>None.group\<close> raises AttributeError.
\<close>

definition card_number_of :: "string \<Rightarrow> error + string" where
  "card_number_of s =
     (if startswith s ''Uw Card met als laatste vier cijfers ''
         \<and> takeWhile isdigit (drop (length ''Uw Card met als laatste vier cijfers '') s) \<noteq> []
      then Inr (takeWhile isdigit (drop (length ''Uw Card met als laatste vier cijfers '') s))
      else Inl AttributeError)"

text \<open>
  Cells in string operations: \<open>+\<close> and the methods of \<open>str\<close> raise TypeError on a
  cell that holds a date; \<open>str\<close> and \<open>format\<close> give the ISO text of a date; the truth
  value of a cell is that of its string, and a date is true.
\<close>

definition cell_str :: "cell \<Rightarrow> error + string" where
  "cell_str c = (case c of CStr s \<Rightarrow> Inr s | CDate _ \<Rightarrow> Inl TypeError)"

definition cell_text :: "cell \<Rightarrow> string" where
  "cell_text c = (case c of CStr s \<Rightarrow> s | CDate d \<Rightarrow> date_isoformat d)"

definition cell_true :: "cell \<Rightarrow> bool" where
  "cell_true c = (c \<noteq> CStr [])"

definition euro_amount :: "'f pdf_library \<Rightarrow> cell list \<Rightarrow> error + Money" where
  "euro_amount L first =
     (case cell_str (first ! 8) of Inl e \<Rightarrow> Inl e | Inr sign \<Rightarrow>
     (case cell_str (first ! 7) of Inl e \<Rightarrow> Inl e | Inr digits \<Rightarrow>
        money_of L (sign @ digits) ''EUR''))"

text \<open>
  Part 2, one group of rows: the card number after it, and the transaction it yields, if
  any. The indices are read on rows of nine cells only.
\<close>

definition process_group ::
  "'f pdf_library \<Rightarrow> string option \<Rightarrow> cell list list
     \<Rightarrow> error + (string option \<times> 'f ICS_Transaction option)" where
  "process_group L cardno rows =
     (if \<not> (0 < length rows \<and> length rows \<le> 2) then Inl AssertionError
      else
        (let first = rows ! 0; second = (if 1 < length rows then rows ! 1 else [])
         in if length first = 1 \<and> length second = 1 then
              (case cell_str (first ! 0) of Inl e \<Rightarrow> Inl e | Inr s \<Rightarrow>
              (case card_number_of s of Inl e \<Rightarrow> Inl e | Inr number \<Rightarrow>
                 Inr (Some number, None)))
            else if length first = 9 \<and> (length second = 0 \<or> length second = 9) then
              (if first ! 5 = CStr [] \<and> first ! 6 = CStr [] \<and> length second = 0 then
                 (case euro_amount L first of Inl e \<Rightarrow> Inl e | Inr am \<Rightarrow>
                    Inr (cardno, Some \<lparr>card_number = cardno, date = first ! 0,
                                     descriptions = [first ! 2, first ! 3],
                                     country_code = first ! 4, foreign_amount = None,
                                     exchange_rate = None, amount = am\<rparr>))
               else if cell_true (first ! 5) \<and> cell_true (first ! 6) \<and> length second = 9 then
                 (if \<not> list_all (\<lambda>i. second ! i = CStr []) [0, 1, 4, 5, 6, 7, 8]
                    then Inl AssertionError
                  else if second ! 2 \<noteq> CStr (''Wisselkoers '' @ cell_text (first ! 6))
                    then Inl AssertionError
                  else
                    (case euro_amount L first of Inl e \<Rightarrow> Inl e | Inr am \<Rightarrow>
                    (case money_of L (cell_text (first ! 5)) (cell_text (first ! 6)) of
                       Inl e \<Rightarrow> Inl e | Inr fam \<Rightarrow>
                    (case cell_str (second ! 3) of Inl e \<Rightarrow> Inl e | Inr rate \<Rightarrow>
                    (case float_of L (comma_to_dot rate) of Inl e \<Rightarrow> Inl e | Inr xr \<Rightarrow>
                       Inr (cardno, Some \<lparr>card_number = cardno, date = first ! 0,
                                        descriptions = [first ! 2, first ! 3],
                                        country_code = first ! 4,
                                        foreign_amount = Some fam,
                                        exchange_rate = Some xr, amount = am\<rparr>))))))
               else Inl AssertionError)
            else Inl AssertionError))"

text \<open>
  The loop over the groups: the transactions yielded and the exception that ends the
  generator, if any; \<open>gen_error\<close> is the exception that ends \<open>group_related_rows\<close>.
\<close>

fun process_groups ::
  "'f pdf_library \<Rightarrow> string option \<Rightarrow> cell list list list \<Rightarrow> error option
     \<Rightarrow> 'f ICS_Transaction list \<times> error option" where
  "process_groups L cardno [] gen_error = ([], gen_error)"
| "process_groups L cardno (rows # groups) gen_error =
     (case process_group L cardno rows of
        Inl e \<Rightarrow> ([], Some e)
      | Inr (cardno', out) \<Rightarrow>
          (case process_groups L cardno' groups gen_error of
             (ts, e) \<Rightarrow> ((case out of None \<Rightarrow> ts | Some t \<Rightarrow> t # ts), e)))"

definition get_transactions_from_pages ::
  "'f pdf_library \<Rightarrow> ('y::linorder, 'a) Page_scheme list
     \<Rightarrow> 'f ICS_Transaction list \<times> error option" where
  "get_transactions_from_pages L pages =
     (case convert_pages 1 None pages of
        Inl e \<Rightarrow> ([], Some e)
      | Inr all_rows \<Rightarrow>
          (case group_related_rows all_rows of
             (groups, gen_error) \<Rightarrow> process_groups L None groups gen_error))"

text \<open>
  The instance of the library for the statements (the exchange rate as a decimal), and a
  statement of one page: a payment in euros, a card header, and a payment in dollars with
  its line of the exchange rate.
\<close>

definition plain_pdf_library :: "decimal pdf_library" where
  "plain_pdf_library =
     \<lparr>money_of = (\<lambda>s cur. case plain_decimal s of
                                Inl e \<Rightarrow> Inl e
                              | Inr d \<Rightarrow> Inr \<lparr>money_amount = d, money_currency = cur\<rparr>),
      float_of = plain_decimal\<rparr>"

definition example_page :: "int Page" where
  "example_page =
     \<lparr>nr = 1, Page.date = Some \<lparr>year = 2023, month = 2, day = 1\<rparr>, page_nr = Some 1,
      total_pages = Some 1,
      table =
        [(456, [''02 jan'', ''03 jan'', ''Description here'', ''Foobar'', ''NLD'', '''', '''',
                ''1,00'', ''Af'']),
         (678, [''Uw Card met als laatste vier cijfers 1234'', '''', '''', '''', '''', '''',
                '''', '''', '''']),
         (567, [''J SMITH VAN DE FOOBAR'', '''', '''', '''', '''', '''', '''', '''', '''']),
         (345, [''03 jan'', ''03 jan'', ''Foreign purchase'', ''Whatever'', ''USA'', ''6,05'',
                ''USD'', ''5,59'', ''Af'']),
         (234, ['''', '''', ''Wisselkoers USD'', ''1,08'', '''', '''', '''', '''', '''']),
         (789, [''09 dec'', ''09 dec'', ''GEINCASSEERD VORIG SALDO'', '''', '''', '''', '''',
                ''5,00'', ''Bij''])]\<rparr>"

section \<open>Transactions of the tab-separated export\<close>

record Transaction =
  account :: int
  date :: pydate
  order :: int
  currency :: string
  amount :: Money
  start_saldo :: Money
  end_saldo :: Money
  description :: string



section \<open>Reading the tab-separated export\<close>

definition filter_comments :: "string list \<Rightarrow> string list" where
  "filter_comments lines =
     filter (\<lambda>line. \<not> startswith (lstrip line) ''#'' \<and> strip line \<noteq> []) lines"

text \<open>
  \<open>read_tsv\<close> calls three functions of the Python library that are not part of this
  program; the model takes them as parameters. \<open>csv_reader\<close> is
  \<open>csv.reader(lines, dialect="excel-tab")\<close>: the rows it yields and the exception that
  ends it, if any. \<open>strptime_ymd\<close> is \<open>datetime.strptime(s, "%Y%m%d").date()\<close> and
  \<open>decimal_of\<close> is \<open>Decimal(s)\<close>, the amount of \<open>Money(s, cur)\<close>.
\<close>

record tsv_library =
  csv_reader :: "string list \<Rightarrow> string list list \<times> error option"
  strptime_ymd :: "string \<Rightarrow> error + pydate"
  decimal_of :: "string \<Rightarrow> error + decimal"

definition to_money :: "tsv_library \<Rightarrow> string \<Rightarrow> string \<Rightarrow> error + Money" where
  "to_money L s cur =
     (case decimal_of L (comma_to_dot s) of
        Inl e \<Rightarrow> Inl e
      | Inr d \<Rightarrow> Inr \<lparr>money_amount = d, money_currency = cur\<rparr>)"

text \<open>
  One round of the loop of \<open>read_tsv\<close>, with the value \<open>order\<close> has after its increment:
  \<open>RowTuple(*r)\<close> raises TypeError unless the row has eight fields, and the arguments of
  \<open>Transaction\<close> are evaluated in the order they are written.
\<close>

definition make_transaction :: "tsv_library \<Rightarrow> int \<Rightarrow> string list \<Rightarrow> error + Transaction" where
  "make_transaction L n r =
     (case r of
        [accountNumber, mutationcode, transactiondate, startsaldo, endsaldo, valuedate,
         amount_text, description_text] \<Rightarrow>
          (case py_int accountNumber of Inl e \<Rightarrow> Inl e | Inr acc \<Rightarrow>
          (case strptime_ymd L transactiondate of Inl e \<Rightarrow> Inl e | Inr d \<Rightarrow>
          (case to_money L amount_text mutationcode of Inl e \<Rightarrow> Inl e | Inr am \<Rightarrow>
          (case to_money L startsaldo mutationcode of Inl e \<Rightarrow> Inl e | Inr ss \<Rightarrow>
          (case to_money L endsaldo mutationcode of Inl e \<Rightarrow> Inl e | Inr es \<Rightarrow>
          (case rejoin_description description_text of Inl e \<Rightarrow> Inl e | Inr desc \<Rightarrow>
             Inr \<lparr>account = acc, date = d, order = n, currency = mutationcode, amount = am,
                  start_saldo = ss, end_saldo = es, description = desc\<rparr>))))))
      | _ \<Rightarrow> Inl TypeError)"

text \<open>
  \<open>read_tsv\<close> is a generator: the model returns the transactions it yields and the
  exception that ends it, if any. \<open>read_rows\<close> is its loop, started with \<open>order = 0\<close>.
\<close>

fun read_rows :: "tsv_library \<Rightarrow> int \<Rightarrow> string list list \<Rightarrow> Transaction list \<times> error option" where
  "read_rows L n [] = ([], None)"
| "read_rows L n (r # rs) =
     (case make_transaction L (n + 1) r of
        Inl e \<Rightarrow> ([], Some e)
      | Inr t \<Rightarrow> (case read_rows L (n + 1) rs of (ts, e) \<Rightarrow> (t # ts, e)))"

definition read_tsv :: "tsv_library \<Rightarrow> string list \<Rightarrow> Transaction list \<times> error option" where
  "read_tsv L file =
     (case csv_reader L (filter_comments file) of
        (rows, reader_error) \<Rightarrow>
          (case read_rows L 0 rows of
             (ts, None) \<Rightarrow> (ts, reader_error)
           | (ts, Some e) \<Rightarrow> (ts, Some e)))"

text \<open>The instance of the library for \<open>read_tsv\<close>.\<close>

definition plain_library :: tsv_library where
  "plain_library =
     \<lparr>csv_reader = (\<lambda>lines. (map (split_on (CHR 0x09)) lines, None)),
      strptime_ymd = plain_date, decimal_of = plain_decimal\<rparr>"

text \<open>\<open>"\t".join(cells)\<close>, to write the lines of an example.\<close>

definition join_tabs :: "string list \<Rightarrow> string" where
  "join_tabs cells =
     (case cells of [] \<Rightarrow> [] | c # cs \<Rightarrow> c @ concat (map (\<lambda>d. CHR 0x09 # d) cs))"

text \<open>An export of three rows between comment lines and blank lines.\<close>

definition example_file :: "string list" where
  "example_file =
   [''# exported'',
    join_tabs [''1234'', ''EUR'', ''20240101'', ''5,00'', ''4,00'', ''20240101'', ''-1,00'',
               ''/TRTP/SEPA OVERBOEKING/NAME/Foo''],
    [],
    join_tabs [''1234'', ''EUR'', ''20240102'', ''4,00'', ''2,50'', ''20240102'', ''-1,50'',
               ''/TRTP/iDEAL/NAME/Bar''],
    ''   # a note'',
    ''   '',
    join_tabs [''1234'', ''EUR'', ''20240103'', ''2,50'', ''3,00'', ''20240103'', ''0,50'',
               ''/TRTP/SEPA OVERBOEKING/NAME/Baz'']]"

section \<open>Properties of the rejoiner\<close>

declare display_lines.simps [simp del]

lemma isspace_space [simp]: "isspace space"
  by (simp add: isspace_def space_def)

lemma isspace_newline [simp]: "isspace newline"
  by (simp add: isspace_def newline_def)

lemma rstrip_Nil [simp]: "rstrip [] = []"
  by (simp add: rstrip_def)

lemma rstrip_eq_Nil: "rstrip s = [] \<longleftrightarrow> list_all isspace s"
  by (auto simp: rstrip_def list_all_iff dropWhile_eq_Nil_conv)

lemma rstrip_append:
  "rstrip (a @ b) = (if rstrip b = [] then rstrip a else a @ rstrip b)"
  by (auto simp: rstrip_def dropWhile_append dropWhile_eq_Nil_conv)

lemma rstrip_Cons:
  "rstrip (c # b) = (if rstrip b = [] then (if isspace c then [] else [c]) else c # rstrip b)"
  using rstrip_append[of "[c]" b] by (simp add: rstrip_def)

lemma length_rstrip_le: "length (rstrip s) \<le> length s"
  by (simp add: rstrip_def length_dropWhile_le[of isspace "rev s", simplified])

lemma set_rstrip_subset: "set (rstrip s) \<subseteq> set s"
  using set_dropWhileD[of _ isspace "rev s"] by (auto simp: rstrip_def)

lemma respaced_unfold:
  "join_with_space (display_lines 64 t) =
     (if length t \<le> 64 then t
      else take 64 t @ [space] @ join_with_space (display_lines 64 (drop 64 t)))"
proof (cases "t = []")
  case True
  then show ?thesis by (simp add: display_lines.simps[of 64 "[]"])
next
  case False
  show ?thesis
  proof (cases "length t \<le> 64")
    case True
    with False show ?thesis
      by (simp add: display_lines.simps[of 64 t] display_lines.simps[of 64 "[]"])
  next
    case long: False
    then have "drop 64 t \<noteq> []" by simp
    then obtain l ls where "display_lines 64 (drop 64 t) = l # ls"
      by (simp add: display_lines.simps[of 64 "drop 64 t"])
    with False long show ?thesis
      by (simp add: display_lines.simps[of 64 t])
  qed
qed

lemma respaced_eq_Nil: "join_with_space (display_lines 64 t) = [] \<longleftrightarrow> t = []"
  by (subst respaced_unfold) auto

lemma rstrip_respaced:
  "rstrip (join_with_space (display_lines 64 r)) = join_with_space (display_lines 64 (rstrip r))"
proof (induction r rule: length_induct)
  case (1 r)
  let ?R = "\<lambda>t. join_with_space (display_lines 64 t)"
  show ?case
  proof (cases "length r \<le> 64")
    case True
    then have "length (rstrip r) \<le> 64" using length_rstrip_le[of r] by simp
    with True show ?thesis
      by (simp add: respaced_unfold[of r] respaced_unfold[of "rstrip r"])
  next
    case False
    let ?h = "take 64 r" and ?d = "drop 64 r"
    have r: "r = ?h @ ?d" by simp
    have len: "length ?h = 64" using False by simp
    have IH: "rstrip (?R ?d) = ?R (rstrip ?d)"
      using 1 False by simp
    have unf: "?R r = ?h @ [space] @ ?R ?d"
      using False by (subst respaced_unfold) simp
    show ?thesis
    proof (cases "rstrip ?d = []")
      case True
      then have "rstrip (?R ?d) = []" using IH by (simp add: respaced_eq_Nil)
      then have lhs: "rstrip (?R r) = rstrip ?h"
        by (simp add: unf rstrip_append rstrip_Cons)
      have "rstrip r = rstrip ?h"
        by (subst r, subst rstrip_append) (simp add: True)
      moreover have "length (rstrip ?h) \<le> 64"
        using length_rstrip_le[of ?h] by simp
      ultimately have "?R (rstrip r) = rstrip ?h"
        by (simp add: respaced_unfold[of "rstrip ?h"])
      with lhs show ?thesis by simp
    next
      case ne: False
      then have "rstrip (?R ?d) \<noteq> []" using IH by (simp add: respaced_eq_Nil)
      then have lhs: "rstrip (?R r) = ?h @ [space] @ ?R (rstrip ?d)"
        by (simp add: unf rstrip_append rstrip_Cons IH)
      have rr: "rstrip r = ?h @ rstrip ?d"
        by (subst r, subst rstrip_append) (simp add: ne)
      have "length (rstrip r) > 64" using ne len by (simp add: rr)
      then have "?R (rstrip r) = take 64 (rstrip r) @ [space] @ ?R (drop 64 (rstrip r))"
        by (subst respaced_unfold) simp
      also have "\<dots> = ?h @ [space] @ ?R (rstrip ?d)"
        using len by (simp add: rr)
      finally show ?thesis using lhs by simp
    qed
  qed
qed

lemma findall_chunks_Cons:
  assumes "c \<noteq> newline" "0 < n"
    and "takeWhile (\<lambda>x. x \<noteq> newline) (take (n - 1) cs) = run"
    and "drop (length run) cs = rest"
  shows "findall_chunks n sp (c # cs) =
     (case rest of
        [] \<Rightarrow> [c # run]
      | x # rest' \<Rightarrow>
          if sp \<and> x = space then (c # run @ [space]) # findall_chunks n sp rest'
          else (c # run) # findall_chunks n sp (x # rest'))"
  using assms by (simp split: list.splits)

lemma findall_chunks_short:
  assumes "newline \<notin> set t" "length t \<le> 64" "t \<noteq> []"
  shows "findall_chunks 64 True t = [t]"
proof -
  obtain c cs where t: "t = c # cs" using assms(3) by (cases t) auto
  have c: "c \<noteq> newline" and cs: "\<forall>x\<in>set cs. x \<noteq> newline" and len: "length cs \<le> 63"
    using assms(1,2) unfolding t by auto
  have "takeWhile (\<lambda>x. x \<noteq> newline) (take (64 - 1) cs) = cs"
    using cs len by (simp add: takeWhile_eq_all_conv[THEN iffD2])
  from findall_chunks_Cons[OF c _ this, of "[]" True] show ?thesis
    unfolding t by simp
qed

lemma findall_chunks_long:
  assumes "newline \<notin> set h" "length h = 64"
  shows "findall_chunks 64 True (h @ space # rest) = (h @ [space]) # findall_chunks 64 True rest"
proof -
  obtain c cs where h: "h = c # cs" using assms(2) by (cases h) auto
  have c: "c \<noteq> newline" and cs: "\<forall>x\<in>set cs. x \<noteq> newline" and len: "length cs = 63"
    using assms unfolding h by auto
  have "takeWhile (\<lambda>x. x \<noteq> newline) (take (64 - 1) (cs @ space # rest)) = cs"
    using cs len by (simp add: takeWhile_eq_all_conv[THEN iffD2])
  from findall_chunks_Cons[OF c _ this, of "space # rest" True] show ?thesis
    unfolding h by simp
qed

lemma findall_respaced:
  assumes "newline \<notin> set t"
  shows "list_all (\<lambda>p. length p = 65)
           (butlast (findall_chunks 64 True (join_with_space (display_lines 64 t))))
         \<and> concat (map (take 64) (findall_chunks 64 True (join_with_space (display_lines 64 t)))) = t"
  using assms
proof (induction t rule: length_induct)
  case (1 t)
  let ?R = "\<lambda>t. join_with_space (display_lines 64 t)"
  show ?case
  proof (cases "length t \<le> 64")
    case True
    show ?thesis
    proof (cases "t = []")
      case True
      then show ?thesis by (simp add: respaced_unfold[of "[]"])
    next
      case False
      with True 1(2) show ?thesis
        by (simp add: respaced_unfold[of t] findall_chunks_short)
    qed
  next
    case False
    let ?h = "take 64 t" and ?d = "drop 64 t"
    have nl: "newline \<notin> set ?h" "newline \<notin> set ?d"
      using 1(2) in_set_takeD in_set_dropD by fastforce+
    have len: "length ?h = 64" using False by simp
    have IH: "list_all (\<lambda>p. length p = 65) (butlast (findall_chunks 64 True (?R ?d)))
              \<and> concat (map (take 64) (findall_chunks 64 True (?R ?d))) = ?d"
      using 1(1) False nl(2) by simp
    have unf: "?R t = ?h @ space # ?R ?d"
      using False by (subst respaced_unfold) simp
    have parts: "findall_chunks 64 True (?R t) = (?h @ [space]) # findall_chunks 64 True (?R ?d)"
      unfolding unf using nl(1) len by (rule findall_chunks_long)
    show ?thesis
      unfolding parts using IH len by (simp add: butlast.simps(2))
  qed
qed

lemma rejoin_respace_stripped:
  assumes "\<not> startswith u ''/''" "32 \<le> length u" "newline \<notin> set (rstrip (drop 32 u))"
  shows "rejoin_description (respace u) = Inr (take 32 u @ rstrip (drop 32 u))"
proof -
  let ?R = "\<lambda>t. join_with_space (display_lines 64 t)"
  let ?s = "respace u"
  have len: "length (take 32 u) = 32" using assms(2) by simp
  have s: "?s = take 32 u @ space # ?R (drop 32 u)" by (simp add: respace_def)
  have "u \<noteq> []" using assms(2) by auto
  then have "\<not> startswith ?s ''/''"
    using assms(1,2) by (cases u) (auto simp: startswith_def respace_def)
  moreover have "\<not> length ?s \<le> 32" using len by (simp add: s)
  moreover have "?s ! 32 = space" using len by (simp add: s nth_append)
  moreover have d: "drop 33 ?s = ?R (drop 32 u)" using len by (simp add: s)
  moreover have t: "take 32 ?s = take 32 u" using len by (simp add: s)
  moreover note findall_respaced[OF assms(3)] rstrip_respaced[of "drop 32 u"]
  ultimately show ?thesis
    by (simp add: rejoin_description_def)
qed

text \<open>
  Claim C2, as amended. For a string \<open>u\<close> that does not start with a slash, has a full
  32-character head and has no line feed in the part after the head (once its trailing
  whitespace is stripped), rejoining the respaced string returns the head followed by the
  rest with its trailing whitespace stripped; so it returns \<open>u\<close> itself when the part
  after the head does not end in whitespace. A string that starts with a slash is
  returned as it is.
\<close>

theorem rejoin_respace_roundtrip:
  "(\<not> startswith u ''/'' \<and> 32 \<le> length u \<and> newline \<notin> set (rstrip (drop 32 u))
      \<longrightarrow> rejoin_description (respace u) = Inr (take 32 u @ rstrip (drop 32 u)))
   \<and> (\<not> startswith u ''/'' \<and> 32 \<le> length u \<and> newline \<notin> set (drop 32 u)
        \<and> rstrip (drop 32 u) = drop 32 u
      \<longrightarrow> rejoin_description (respace u) = Inr u)
   \<and> (startswith s ''/'' \<longrightarrow> rejoin_description s = Inr s)"
proof (intro conjI impI)
  assume "\<not> startswith u ''/'' \<and> 32 \<le> length u \<and> newline \<notin> set (rstrip (drop 32 u))"
  then show "rejoin_description (respace u) = Inr (take 32 u @ rstrip (drop 32 u))"
    by (simp add: rejoin_respace_stripped)
next
  assume h: "\<not> startswith u ''/'' \<and> 32 \<le> length u \<and> newline \<notin> set (drop 32 u)
              \<and> rstrip (drop 32 u) = drop 32 u"
  then have "rejoin_description (respace u) = Inr (take 32 u @ rstrip (drop 32 u))"
    by (intro rejoin_respace_stripped) simp_all
  with h show "rejoin_description (respace u) = Inr u"
    by simp
next
  assume "startswith s ''/''"
  then show "rejoin_description s = Inr s"
    by (simp add: rejoin_description_def)
qed

theorem rejoin_respace_roundtrip_witness:
  "\<not> startswith ''SEPA Overboeking                Naam: J SMITH VAN DE FOOBAR CJ'' ''/''
   \<and> 32 \<le> length ''SEPA Overboeking                Naam: J SMITH VAN DE FOOBAR CJ''
   \<and> newline \<notin> set (drop 32 ''SEPA Overboeking                Naam: J SMITH VAN DE FOOBAR CJ'')
   \<and> rstrip (drop 32 ''SEPA Overboeking                Naam: J SMITH VAN DE FOOBAR CJ'')
       = drop 32 ''SEPA Overboeking                Naam: J SMITH VAN DE FOOBAR CJ''
   \<and> rejoin_description (respace ''SEPA Overboeking                Naam: J SMITH VAN DE FOOBAR CJ'')
       = Inr ''SEPA Overboeking                Naam: J SMITH VAN DE FOOBAR CJ''
   \<and> startswith ''/TRTP/iDEAL'' ''/''
   \<and> rejoin_description ''/TRTP/iDEAL'' = Inr ''/TRTP/iDEAL''"
proof -
  let ?u = "''SEPA Overboeking                Naam: J SMITH VAN DE FOOBAR CJ''"
  let ?s = "''/TRTP/iDEAL''"
  have h1: "\<not> startswith ?u ''/''" and h2: "32 \<le> length ?u"
    and h3: "newline \<notin> set (drop 32 ?u)" and h4: "rstrip (drop 32 ?u) = drop 32 ?u"
    and h5: "startswith ?s ''/''"
    by code_simp+
  from rejoin_respace_roundtrip [of ?u ?s] h1 h2 h3 h4 h5
  have "rejoin_description (respace ?u) = Inr ?u" and "rejoin_description ?s = Inr ?s"
    by blast+
  with h1 h2 h3 h4 h5 show ?thesis by blast
qed

text \<open>
  The claim as stated fails: a string whose part after the head ends in whitespace (as the
  lines of the export do) comes back without that whitespace, and a line feed after the
  head makes the chunk-length assertion fail.
\<close>

theorem rejoin_respace_roundtrip_counterexample:
  "\<not> startswith ''SEPA Overboeking                IBAN: NL01ABNA0123456789        '' ''/''
   \<and> rejoin_description
        (respace ''SEPA Overboeking                IBAN: NL01ABNA0123456789        '')
       = Inr ''SEPA Overboeking                IBAN: NL01ABNA0123456789''
   \<and> rejoin_description
        (respace ''SEPA Overboeking                IBAN: NL01ABNA0123456789        '')
       \<noteq> Inr ''SEPA Overboeking                IBAN: NL01ABNA0123456789        ''
   \<and> \<not> startswith (''SEPA Overboeking                Naam: A'' @ [newline] @ ''B'') ''/''
   \<and> rejoin_description (respace (''SEPA Overboeking                Naam: A'' @ [newline] @ ''B''))
       = Inl AssertionError"
  by code_simp

text \<open>
  Claim C10. For a string that does not start with a slash and has at most 32 characters,
  \<open>rejoin_description\<close> raises IndexError (the read of \<open>s[32]\<close>), not the assertion
  failure.
\<close>

theorem rejoin_short_IndexError:
  "\<not> startswith s ''/'' \<Longrightarrow> length s \<le> 32 \<Longrightarrow> rejoin_description s = Inl IndexError"
  by (simp add: rejoin_description_def)

theorem rejoin_short_IndexError_witness:
  "\<not> startswith ''SEPA iDEAL'' ''/'' \<and> length ''SEPA iDEAL'' \<le> 32
   \<and> rejoin_description ''SEPA iDEAL'' = Inl IndexError"
  using rejoin_short_IndexError [of "''SEPA iDEAL''"]
  by (simp add: startswith_def)

section \<open>Properties of the description decoder\<close>

lemma rstrip_is_prefix: "\<exists>r. x = rstrip x @ r"
proof -
  have "x = rstrip x @ rev (takeWhile isspace (rev x))"
    unfolding rstrip_def by (metis rev_append rev_rev_ident takeWhile_dropWhile_id)
  then show ?thesis ..
qed

lemma startswith_iff: "startswith s p \<longleftrightarrow> (\<exists>r. s = p @ r)"
proof
  assume "startswith s p"
  then have "s = p @ drop (length p) s"
    unfolding startswith_def by (metis append_take_drop_id)
  then show "\<exists>r. s = p @ r" ..
next
  assume "\<exists>r. s = p @ r"
  then show "startswith s p" by (auto simp: startswith_def)
qed

lemma startswith_head:
  assumes "startswith (rstrip (take n s)) p"
  shows "startswith s p"
proof -
  from assms obtain r where r: "rstrip (take n s) = p @ r"
    by (auto simp: startswith_iff)
  obtain r' where "take n s = rstrip (take n s) @ r'"
    using rstrip_is_prefix by blast
  then have "s = p @ (r @ r' @ drop n s)"
    using r by (metis append.assoc append_take_drop_id)
  then show ?thesis unfolding startswith_iff ..
qed

text \<open>
  Claim C1. A description that does not start with a slash and starts with none of the
  texts that select a known format is decoded, without an exception, to a dictionary of
  exactly two keys: \<open>type\<close> is the first 32 characters and \<open>description\<close> the rest,
  each with its trailing whitespace stripped. For the 30-character example of the
  specification the head is the whole text and the description is empty.
\<close>

theorem parse_description_fallback:
  assumes "\<not> startswith s ''/''" "\<not> startswith s ''ABN AMRO Bank''"
    and "\<not> startswith s ''BEA ''" "\<not> startswith s ''BEA, ''" "\<not> startswith s ''GEA, ''"
    and "\<not> startswith s ''SEPA ''" "\<not> startswith s ''CREDIT INTEREST''"
    and "\<not> startswith s ''Basic interest''" "\<not> startswith s ''Maandpremie ''"
    and "\<not> startswith s ''Uitbetaling pakketkorting''"
    and "\<not> startswith s ''PAKKETVERZ. POLISNR.''"
  shows "parse_description s
         = Inr [(''type'', rstrip (take 32 s)), (''description'', rstrip (drop 32 s))]"
proof -
  have "\<not> startswith (rstrip (take 32 s)) p" if "\<not> startswith s p" for p
    using that startswith_head by blast
  with assms show ?thesis
    by (simp add: parse_description_def Let_def dict_of_def dict_update_def)
qed

theorem parse_description_fallback_witness:
  "\<not> startswith ''zzz this is not a known format'' ''/''
   \<and> \<not> startswith ''zzz this is not a known format'' ''ABN AMRO Bank''
   \<and> \<not> startswith ''zzz this is not a known format'' ''BEA ''
   \<and> \<not> startswith ''zzz this is not a known format'' ''BEA, ''
   \<and> \<not> startswith ''zzz this is not a known format'' ''GEA, ''
   \<and> \<not> startswith ''zzz this is not a known format'' ''SEPA ''
   \<and> \<not> startswith ''zzz this is not a known format'' ''CREDIT INTEREST''
   \<and> \<not> startswith ''zzz this is not a known format'' ''Basic interest''
   \<and> \<not> startswith ''zzz this is not a known format'' ''Maandpremie ''
   \<and> \<not> startswith ''zzz this is not a known format'' ''Uitbetaling pakketkorting''
   \<and> \<not> startswith ''zzz this is not a known format'' ''PAKKETVERZ. POLISNR.''
   \<and> parse_description ''zzz this is not a known format''
       = Inr [(''type'', ''zzz this is not a known format''), (''description'', '''')]"
proof -
  have "rstrip (take 32 ''zzz this is not a known format'') = ''zzz this is not a known format''"
    and "rstrip (drop 32 ''zzz this is not a known format'') = ''''"
    by code_simp+
  with parse_description_fallback [of "''zzz this is not a known format''"]
  show ?thesis by (simp add: startswith_def)
qed

subsection \<open>Slash-separated descriptions\<close>

lemma map_of_dict_set: "map_of (dict_set d k v) = (map_of d)(k \<mapsto> v)"
  by (induction d) (auto simp: fun_eq_iff)

lemma map_of_dict_update: "map_of (dict_update d kvs) = map_of d ++ map_of (rev kvs)"
  unfolding dict_update_def
proof (induction kvs arbitrary: d)
  case Nil
  then show ?case by simp
next
  case (Cons kv kvs)
  obtain k v where kv: "kv = (k, v)" by (cases kv)
  have "map_of (foldl (\<lambda>d (k, v). dict_set d k v) (dict_set d k v) kvs)
        = map_of (dict_set d k v) ++ map_of (rev kvs)"
    by (rule Cons.IH)
  also have "\<dots> = map_of d ++ map_of (rev kvs @ [(k, v)])"
    by (simp add: map_of_dict_set fun_eq_iff map_add_def split: option.splits)
  finally show ?case by (simp add: kv)
qed

lemma map_of_dict_of: "map_of (dict_of kvs) = map_of (rev kvs)"
  by (simp add: dict_of_def map_of_dict_update)

lemma split_by_nonempty: "split_by P s \<noteq> []"
  by (induction s) (auto split: list.splits)

lemma split_by_none: "list_all (\<lambda>x. \<not> P x) s \<Longrightarrow> split_by P s = [s]"
  by (induction s) auto

lemma split_by_append_sep:
  "list_all (\<lambda>x. \<not> P x) a \<Longrightarrow> P c \<Longrightarrow> split_by P (a @ c # rest) = a # split_by P rest"
  by (induction a) auto

lemma split_render:
  assumes "list_all (\<lambda>x. c \<notin> set x) segs" "segs \<noteq> []"
  shows "split_on c (drop 1 (concat (map (\<lambda>x. c # x) segs))) = segs"
  using assms
proof (induction segs)
  case Nil
  then show ?case by simp
next
  case (Cons a segs)
  have a: "list_all (\<lambda>x. \<not> x = c) a"
    using Cons.prems(1) by (auto simp: list_all_iff)
  show ?case
  proof (cases "segs = []")
    case True
    then show ?thesis using a by (simp add: split_on_def split_by_none)
  next
    case False
    then obtain b bs where segs: "segs = b # bs" by (cases segs) auto
    have IH: "split_on c (drop 1 (concat (map (\<lambda>x. c # x) segs))) = segs"
      using Cons False by simp
    have "split_on c (drop 1 (concat (map (\<lambda>x. c # x) (a # segs))))
          = split_by (\<lambda>x. x = c) (a @ c # (drop 1 (concat (map (\<lambda>x. c # x) segs))))"
      by (simp add: split_on_def segs)
    also have "\<dots> = a # split_by (\<lambda>x. x = c) (drop 1 (concat (map (\<lambda>x. c # x) segs)))"
      using a by (intro split_by_append_sep) simp_all
    finally show ?thesis using IH by (simp add: split_on_def)
  qed
qed

lemma join_slash_Cons: "join_slash (v # cs) = v @ concat (map (\<lambda>c. ''/'' @ c) cs)"
  by (induction cs arbitrary: v) auto

text \<open>Segments that are no tags are glued to the value before them.\<close>

lemma slash_loop_glue:
  assumes "odd (length acc)" "list_all (\<lambda>v. \<not> is_tag v) cs"
  shows "slash_loop (acc @ [x]) (cs @ rest)
         = slash_loop (acc @ [x @ concat (map (\<lambda>c. ''/'' @ c) cs)]) rest"
  using assms(2)
proof (induction cs arbitrary: x)
  case Nil
  then show ?case by simp
next
  case (Cons c cs)
  have "slash_step (acc @ [x]) c = Inr (acc @ [x @ ''/'' @ c])"
    using assms(1) Cons.prems by (simp add: slash_step_def)
  then show ?case using Cons by simp
qed

lemma slash_loop_pair:
  assumes "even (length acc)" "is_tag t" "list_all (\<lambda>v. \<not> is_tag v) cs"
  shows "slash_loop acc (t # v # cs @ rest) = slash_loop (acc @ [t, join_slash (v # cs)]) rest"
proof -
  have "slash_loop acc (t # v # cs @ rest) = slash_loop ((acc @ [t]) @ [v]) (cs @ rest)"
    using assms(1,2) by (simp add: slash_step_def)
  also have "\<dots> = slash_loop ((acc @ [t]) @ [v @ concat (map (\<lambda>c. ''/'' @ c) cs)]) rest"
    using assms(1,3) by (intro slash_loop_glue) simp_all
  finally show ?thesis by (simp add: join_slash_Cons)
qed

lemma slash_loop_segments:
  assumes "wf_pairs kvs" "even (length acc)"
  shows "slash_loop acc (segments kvs) = Inr (acc @ joined kvs)"
  using assms
proof (induction kvs arbitrary: acc)
  case Nil
  then show ?case by (simp add: segments_def joined_def)
next
  case (Cons kv kvs)
  obtain t vs where kv: "kv = (t, vs)" by (cases kv)
  from Cons.prems(1) have t: "is_tag t" and "vs \<noteq> []"
    and cs: "list_all (\<lambda>v. \<not> is_tag v) (tl vs)" and wf: "wf_pairs kvs"
    by (simp_all add: wf_pairs_def kv)
  then obtain v cs where vs: "vs = v # cs" by (cases vs) auto
  have "slash_loop acc (segments (kv # kvs)) = slash_loop acc (t # v # cs @ segments kvs)"
    by (simp add: segments_def kv vs)
  also have "\<dots> = slash_loop (acc @ [t, join_slash (v # cs)]) (segments kvs)"
    using Cons.prems(2) t cs by (intro slash_loop_pair) (simp_all add: vs)
  also have "\<dots> = Inr ((acc @ [t, join_slash (v # cs)]) @ joined kvs)"
    using wf Cons.prems(2) by (intro Cons.IH) simp_all
  finally show ?case by (simp add: joined_def kv vs)
qed

lemma tag_cases:
  "is_tag t \<longleftrightarrow> t = ''TRTP'' \<or> t = ''CSID'' \<or> t = ''NAME'' \<or> t = ''REMI'' \<or> t = ''MARF''
     \<or> t = ''EREF'' \<or> t = ''IBAN'' \<or> t = ''BIC'' \<or> t = ''ORDP'' \<or> t = ''ID''"
  by (auto simp: is_tag_def tag_names_def)

lemma key_map_tag:
  "is_tag t \<Longrightarrow> map_of key_map t = Some (field_name t)"
  unfolding tag_cases by (auto simp: key_map_def field_name_def)

lemma field_name_empty:
  "is_tag t \<Longrightarrow> field_name t = [] \<longleftrightarrow> t = ''ORDP'' \<or> t = ''ID''"
  unfolding tag_cases by (auto simp: key_map_def field_name_def)

lemma field_name_type:
  "is_tag t \<Longrightarrow> field_name t = ''type'' \<longleftrightarrow> t = ''TRTP''"
  unfolding tag_cases by (auto simp: key_map_def field_name_def)

lemma slash_items_joined:
  assumes "wf_pairs kvs"
  shows "slash_items (joined kvs)
         = Inr (map (\<lambda>(t, vs). (field_name t, rstrip (join_slash vs)))
                  (filter (\<lambda>(t, vs). t \<noteq> ''ORDP'' \<and> t \<noteq> ''ID'') kvs))"
  using assms
proof (induction kvs)
  case Nil
  then show ?case by (simp add: joined_def)
next
  case (Cons kv kvs)
  obtain t vs where kv: "kv = (t, vs)" by (cases kv)
  from Cons.prems have t: "is_tag t" and wf: "wf_pairs kvs"
    by (simp_all add: wf_pairs_def kv)
  have "joined (kv # kvs) = t # join_slash vs # joined kvs"
    by (simp add: joined_def kv)
  then show ?case
    using Cons.IH[OF wf] t by (simp add: kv key_map_tag field_name_empty)
qed

lemma segments_render:
  "render_pairs kvs = concat (map (\<lambda>x. CHR ''/'' # x) (segments kvs))"
  by (induction kvs) (auto simp: render_pairs_def segments_def)

lemma split_render_pairs:
  assumes "wf_pairs kvs" "kvs \<noteq> []"
  shows "split_on (CHR ''/'') (drop 1 (render_pairs kvs)) = segments kvs"
proof -
  have "CHR ''/'' \<notin> set t" if "is_tag t" for t
    using that unfolding tag_cases by auto
  then have "list_all (\<lambda>x. CHR ''/'' \<notin> set x) (segments kvs)"
    using assms(1) by (induction kvs) (auto simp: wf_pairs_def segments_def list_all_iff)
  moreover have "segments kvs \<noteq> []"
    using assms(2) by (cases kvs) (auto simp: segments_def)
  ultimately show ?thesis
    unfolding segments_render by (rule split_render)
qed

lemma startswith_render: "kvs \<noteq> [] \<Longrightarrow> startswith (render_pairs kvs) ''/''"
  by (cases kvs) (auto simp: render_pairs_def startswith_def)

lemma map_of_map_value:
  "map_of (map (\<lambda>(n, v). (n, f n v)) xs) k = map_option (f k) (map_of xs k)"
  by (induction xs) auto

lemma rewrite_ideal_other: "k \<noteq> ''type'' \<Longrightarrow> rewrite_ideal k v = v"
  by (simp add: rewrite_ideal_def)

lemma map_option_rewrite_ideal:
  "map_option (rewrite_ideal k) m
   = (if k = ''type'' \<and> m = Some ''iDEAL'' then Some ''SEPA iDEAL'' else m)"
  by (cases m) (simp_all add: rewrite_ideal_def)

lemma slash_finish_fields:
  assumes "map_of d ''type'' = Some t"
  shows "\<exists>d'. slash_finish d = Inr d'
           \<and> map_of d' = (\<lambda>k. map_option (rewrite_ideal k) (map_of d k))"
proof (cases "t = ''iDEAL''")
  case True
  have "map_of (dict_set d ''type'' ''SEPA iDEAL'')
        = (\<lambda>k. map_option (rewrite_ideal k) (map_of d k))"
    unfolding map_option_rewrite_ideal map_of_dict_set
    using assms True by (intro ext) auto
  then show ?thesis using assms True by (simp add: slash_finish_def)
next
  case False
  have "map_of d = (\<lambda>k. map_option (rewrite_ideal k) (map_of d k))"
    unfolding map_option_rewrite_ideal
    using assms False by (intro ext) auto
  then show ?thesis using assms False by (simp add: slash_finish_def)
qed

lemma field_name_TRTP: "field_name ''TRTP'' = ''type''"
  by (simp add: field_name_def key_map_def)

lemma type_in_items:
  assumes "''TRTP'' \<in> set (map fst kvs)"
  shows "''type'' \<in> fst ` set (rev (map (\<lambda>(t, vs). (field_name t, rstrip (join_slash vs)))
           (filter (\<lambda>(t, vs). t \<noteq> ''ORDP'' \<and> t \<noteq> ''ID'') kvs)))"
proof -
  from assms obtain vs where "(''TRTP'', vs) \<in> set kvs" by auto
  then have "(''TRTP'', vs) \<in> set (filter (\<lambda>(t, vs). t \<noteq> ''ORDP'' \<and> t \<noteq> ''ID'') kvs)"
    by simp
  then have "(\<lambda>(t, vs). (field_name t, rstrip (join_slash vs))) (''TRTP'', vs)
             \<in> set (map (\<lambda>(t, vs). (field_name t, rstrip (join_slash vs)))
                   (filter (\<lambda>(t, vs). t \<noteq> ''ORDP'' \<and> t \<noteq> ''ID'') kvs))"
    unfolding set_map by (rule imageI)
  then have "(''type'', rstrip (join_slash vs))
             \<in> set (rev (map (\<lambda>(t, vs). (field_name t, rstrip (join_slash vs)))
                   (filter (\<lambda>(t, vs). t \<noteq> ''ORDP'' \<and> t \<noteq> ''ID'') kvs)))"
    by (simp add: field_name_TRTP)
  then show ?thesis by (rule image_eqI[rotated]) simp
qed

lemma parse_rendered_pairs:
  assumes "wf_pairs kvs" "''TRTP'' \<in> set (map fst kvs)"
  shows "\<exists>d. parse_description (render_pairs kvs) = Inr d \<and> map_of d = expected_fields kvs"
proof -
  let ?keep = "filter (\<lambda>(t, vs). t \<noteq> ''ORDP'' \<and> t \<noteq> ''ID'') kvs"
  let ?items = "map (\<lambda>(t, vs). (field_name t, rstrip (join_slash vs))) ?keep"
  have ne: "kvs \<noteq> []" using assms(2) by auto
  have sp: "split_on (CHR ''/'') (drop 1 (render_pairs kvs)) = segments kvs"
    by (rule split_render_pairs[OF assms(1) ne])
  have parts: "slash_loop [] (segments kvs) = Inr (joined kvs)"
    using slash_loop_segments[OF assms(1), of "[]"] by simp
  have items: "slash_items (joined kvs) = Inr ?items"
    by (rule slash_items_joined[OF assms(1)])
  have "map_of (rev ?items) ''type'' \<noteq> None"
    unfolding map_of_eq_None_iff using type_in_items[OF assms(2)] by simp
  then obtain t where t: "map_of (dict_of ?items) ''type'' = Some t"
    unfolding map_of_dict_of by blast
  from slash_finish_fields[OF t] obtain d' where d': "slash_finish (dict_of ?items) = Inr d'"
    and m: "map_of d' = (\<lambda>k. map_option (rewrite_ideal k) (map_of (dict_of ?items) k))"
    by blast
  have "expected_fields kvs = map_of (map (\<lambda>(n, v). (n, rewrite_ideal n v)) (rev ?items))"
    by (simp add: expected_fields_def rev_map case_prod_unfold comp_def)
  also have "\<dots> = (\<lambda>k. map_option (rewrite_ideal k) (map_of (rev ?items) k))"
    by (rule ext) (rule map_of_map_value)
  finally have "map_of d' = expected_fields kvs"
    unfolding m map_of_dict_of by simp
  moreover have "parse_slashes (render_pairs kvs) = Inr d'"
    using sp parts items d' by (simp add: parse_slashes_def)
  then have "parse_description (render_pairs kvs) = Inr d'"
    using startswith_render[OF ne] by (simp add: parse_description_def)
  ultimately show ?thesis by blast
qed

lemma keys_dict_set: "fst ` set (dict_set d k v) = insert k (fst ` set d)"
proof (induction d)
  case Nil
  then show ?case by simp
next
  case (Cons kv d)
  obtain k' v' where kv: "kv = (k', v')" by (cases kv)
  show ?case
  proof (cases "k' = k")
    case True
    then show ?thesis by (simp add: kv)
  next
    case False
    then show ?thesis using Cons.IH by (simp add: kv insert_commute)
  qed
qed

lemma keys_dict_update: "fst ` set (dict_update d kvs) = fst ` set d \<union> fst ` set kvs"
  unfolding dict_update_def
proof (induction kvs arbitrary: d)
  case Nil
  then show ?case by simp
next
  case (Cons kv kvs)
  obtain k v where kv: "kv = (k, v)" by (cases kv)
  have "fst ` set (foldl (\<lambda>d (k, v). dict_set d k v) (dict_set d k v) kvs)
        = fst ` set (dict_set d k v) \<union> fst ` set kvs"
    by (rule Cons.IH)
  then show ?case by (simp add: kv keys_dict_set)
qed

lemma keys_dict_of: "fst ` set (dict_of kvs) = fst ` set kvs"
  by (simp add: dict_of_def keys_dict_update)

lemma key_map_range:
  "map_of key_map k = Some n \<Longrightarrow> n \<noteq> [] \<Longrightarrow> n \<in> set field_names"
  by (auto simp: key_map_def field_names_def split: if_splits)

lemma slash_items_keys:
  "slash_items parts = Inr items \<Longrightarrow> fst ` set items \<subseteq> set field_names"
proof (induction parts arbitrary: items rule: slash_items.induct)
  case 1
  then show ?case by simp
next
  case (2 k)
  then show ?case by simp
next
  case (3 k v rest)
  from "3.prems" obtain n its where n: "map_of key_map k = Some n"
    and its: "slash_items rest = Inr its"
    and items: "items = (if n \<noteq> [] then (n, rstrip v) # its else its)"
    by (auto split: option.splits sum.splits)
  have "fst ` set its \<subseteq> set field_names" using "3.IH" n its by simp
  then show ?case using key_map_range[OF n] by (auto simp: items)
qed

lemma slash_result_fields:
  assumes "startswith s ''/''" "parse_description s = Inr d"
  shows "fst ` set d \<subseteq> set field_names
         \<and> (\<exists>t. map_of d ''type'' = Some t \<and> t \<noteq> ''iDEAL'')"
proof -
  from assms obtain parts items where items: "slash_items parts = Inr items"
    and fin: "slash_finish (dict_of items) = Inr d"
    by (auto simp: parse_description_def parse_slashes_def split: sum.splits)
  have keys: "fst ` set (dict_of items) \<subseteq> set field_names"
    using slash_items_keys[OF items] by (simp add: keys_dict_of)
  from fin obtain t where t: "map_of (dict_of items) ''type'' = Some t"
    and d: "d = (if t = ''iDEAL'' then dict_set (dict_of items) ''type'' ''SEPA iDEAL''
                 else dict_of items)"
    by (auto simp: slash_finish_def split: option.splits)
  have "fst ` set d \<subseteq> set field_names"
    using keys by (auto simp: d keys_dict_set field_names_def)
  moreover have "\<exists>t'. map_of d ''type'' = Some t' \<and> t' \<noteq> ''iDEAL''"
    using t by (auto simp: d map_of_dict_set)
  ultimately show ?thesis by blast
qed

lemma tags_of_snoc:
  "tags_of (a @ [p]) = (if even (length a) then tags_of a @ [p] else tags_of a)"
  by (induction a rule: tags_of.induct) auto

lemma tags_of_replace_last:
  assumes "even (length a)" "a \<noteq> []"
  shows "tags_of (butlast a @ [x]) = tags_of a"
proof -
  have odd: "odd (length (butlast a))" using assms by (cases a rule: rev_cases) auto
  have "tags_of a = tags_of (butlast a @ [last a])" using assms(2) by simp
  also have "\<dots> = tags_of (butlast a)" using odd by (simp only: tags_of_snoc if_False)
  finally show ?thesis using odd by (simp add: tags_of_snoc)
qed

lemma slash_step_tags:
  assumes "slash_step parts p = Inr parts'" "list_all is_tag (tags_of parts)"
  shows "list_all is_tag (tags_of parts')"
proof (cases "even (length parts)")
  case True
  show ?thesis
  proof (cases "is_tag p")
    case tag: True
    then have "parts' = parts @ [p]" using assms(1) True by (simp add: slash_step_def)
    then show ?thesis using assms(2) True tag by (simp add: tags_of_snoc)
  next
    case False
    then have ne: "parts \<noteq> []" and eq: "parts' = butlast parts @ [last parts @ ''/'' @ p]"
      using assms(1) True by (auto simp: slash_step_def split: if_splits)
    have "tags_of parts' = tags_of parts"
      unfolding eq by (rule tags_of_replace_last[OF True ne])
    then show ?thesis using assms(2) by simp
  qed
next
  case False
  then have "parts' = parts @ [p]" using assms(1) by (simp add: slash_step_def)
  then show ?thesis using assms(2) False by (simp add: tags_of_snoc)
qed

lemma slash_loop_tags:
  "slash_loop acc segs = Inr parts \<Longrightarrow> list_all is_tag (tags_of acc)
   \<Longrightarrow> list_all is_tag (tags_of parts)"
proof (induction segs arbitrary: acc)
  case Nil
  then show ?case by simp
next
  case (Cons p ps)
  from Cons.prems(1) obtain acc' where st: "slash_step acc p = Inr acc'"
    and lp: "slash_loop acc' ps = Inr parts"
    by (auto split: sum.splits)
  show ?case
    using Cons.IH[OF lp] slash_step_tags[OF st Cons.prems(2)] by simp
qed

lemma slash_items_no_type:
  "list_all is_tag (tags_of parts) \<Longrightarrow> even (length parts) \<Longrightarrow> ''TRTP'' \<notin> set (tags_of parts)
   \<Longrightarrow> \<exists>items. slash_items parts = Inr items \<and> ''type'' \<notin> fst ` set items"
proof (induction parts rule: slash_items.induct)
  case 1
  then show ?case by simp
next
  case (2 k)
  then show ?case by simp
next
  case (3 k v rest)
  then have k: "is_tag k" "k \<noteq> ''TRTP''" by auto
  from 3 obtain items where its: "slash_items rest = Inr items" "''type'' \<notin> fst ` set items"
    using key_map_tag[OF k(1)] by auto
  have "field_name k \<noteq> ''type''" using k by (simp add: field_name_type)
  then show ?case using its key_map_tag[OF k(1)] by auto
qed

lemma parse_slashes_first_not_tag:
  assumes "startswith s ''/''" "\<not> is_tag (hd (split_on (CHR ''/'') (drop 1 s)))"
  shows "parse_description s = Inl IndexError"
proof -
  obtain p ps where sp: "split_on (CHR ''/'') (drop 1 s) = p # ps"
    using split_by_nonempty[of "\<lambda>x. x = CHR ''/''" "drop 1 s"]
    by (cases "split_on (CHR ''/'') (drop 1 s)") (auto simp: split_on_def)
  with assms(2) have "slash_step [] p = Inl IndexError"
    by (simp add: slash_step_def)
  then have "parse_slashes s = Inl IndexError"
    using sp by (simp add: parse_slashes_def)
  then show ?thesis using assms(1) by (simp add: parse_description_def)
qed

lemma parse_slashes_no_TRTP:
  assumes "startswith s ''/''"
    and "slash_loop [] (split_on (CHR ''/'') (drop 1 s)) = Inr parts"
    and "even (length parts)" "''TRTP'' \<notin> set (tags_of parts)"
  shows "parse_description s = Inl KeyError"
proof -
  have "list_all is_tag (tags_of parts)"
    using slash_loop_tags[OF assms(2)] by simp
  from slash_items_no_type[OF this assms(3,4)] obtain items
    where its: "slash_items parts = Inr items" and nt: "''type'' \<notin> fst ` set items"
    by blast
  have "map_of (dict_of items) ''type'' = None"
    unfolding map_of_dict_of map_of_eq_None_iff using nt by simp
  then have "slash_finish (dict_of items) = Inl KeyError"
    by (simp add: slash_finish_def)
  then have "parse_slashes s = Inl KeyError"
    using assms(2) its by (simp add: parse_slashes_def)
  then show ?thesis using assms(1) by (simp add: parse_description_def)
qed

lemma slash_items_dangling:
  "list_all is_tag (tags_of parts) \<Longrightarrow> odd (length parts)
   \<Longrightarrow> slash_items parts = Inl ValueError"
proof (induction parts rule: slash_items.induct)
  case 1
  then show ?case by simp
next
  case (2 k)
  then show ?case by simp
next
  case (3 k v rest)
  then have k: "is_tag k" by simp
  from 3 have "slash_items rest = Inl ValueError"
    using key_map_tag[OF k] by simp
  then show ?case using key_map_tag[OF k] by simp
qed

lemma parse_slashes_dangling:
  assumes "startswith s ''/''"
    and "slash_loop [] (split_on (CHR ''/'') (drop 1 s)) = Inr parts"
    and "odd (length parts)"
  shows "parse_description s = Inl ValueError"
proof -
  have "list_all is_tag (tags_of parts)"
    using slash_loop_tags[OF assms(2)] by simp
  then have "slash_items parts = Inl ValueError"
    using assms(3) by (rule slash_items_dangling)
  then have "parse_slashes s = Inl ValueError"
    using assms(2) by (simp add: parse_slashes_def)
  then show ?thesis using assms(1) by (simp add: parse_description_def)
qed

text \<open>
  Claim C3. The text of a well-formed list of tag/value pairs with a TRTP tag is decoded
  to exactly the mapping such a list stands for: a segment at a tag position that is no
  tag has been glued to the value before it with a slash, the values of ORDP and ID are
  left out, and the type \<open>iDEAL\<close> reads \<open>SEPA iDEAL\<close>. Whatever the decoder returns
  on a text that starts with a slash has only the eight field names as keys (none for
  ORDP or ID) and a type other than \<open>iDEAL\<close>. The example of the specification is
  decoded to the type, Incassant and BIC given there.
\<close>

theorem parse_description_slashes:
  "(wf_pairs kvs \<and> ''TRTP'' \<in> set (map fst kvs)
      \<longrightarrow> (\<exists>d. parse_description (render_pairs kvs) = Inr d \<and> map_of d = expected_fields kvs))
   \<and> (startswith s ''/'' \<and> parse_description s = Inr d
      \<longrightarrow> fst ` set d \<subseteq> set field_names
          \<and> (\<exists>t. map_of d ''type'' = Some t \<and> t \<noteq> ''iDEAL''))
   \<and> parse_description
        ''/TRTP/SEPA Incasso algemeen doorlopend/CSID/NL00ZZZ123456789012/NAME/Albert Heijn B.V./MARF/AH0.../REMI/Foobarment/IBAN/NL00INGB0123456789/BIC/INGBNL2A/EREF/AB0123456789''
       = Inr [(''type'', ''SEPA Incasso algemeen doorlopend''),
              (''Incassant'', ''NL00ZZZ123456789012''), (''Naam'', ''Albert Heijn B.V.''),
              (''Machtiging'', ''AH0...''), (''Omschrijving'', ''Foobarment''),
              (''IBAN'', ''NL00INGB0123456789''), (''BIC'', ''INGBNL2A''),
              (''Kenmerk'', ''AB0123456789'')]"
proof (intro conjI impI)
  assume "wf_pairs kvs \<and> ''TRTP'' \<in> set (map fst kvs)"
  then show "\<exists>d. parse_description (render_pairs kvs) = Inr d \<and> map_of d = expected_fields kvs"
    using parse_rendered_pairs by blast
next
  assume "startswith s ''/'' \<and> parse_description s = Inr d"
  then show "fst ` set d \<subseteq> set field_names"
    and "\<exists>t. map_of d ''type'' = Some t \<and> t \<noteq> ''iDEAL''"
    using slash_result_fields by blast+
next
  show "parse_description
        ''/TRTP/SEPA Incasso algemeen doorlopend/CSID/NL00ZZZ123456789012/NAME/Albert Heijn B.V./MARF/AH0.../REMI/Foobarment/IBAN/NL00INGB0123456789/BIC/INGBNL2A/EREF/AB0123456789''
       = Inr [(''type'', ''SEPA Incasso algemeen doorlopend''),
              (''Incassant'', ''NL00ZZZ123456789012''), (''Naam'', ''Albert Heijn B.V.''),
              (''Machtiging'', ''AH0...''), (''Omschrijving'', ''Foobarment''),
              (''IBAN'', ''NL00INGB0123456789''), (''BIC'', ''INGBNL2A''),
              (''Kenmerk'', ''AB0123456789'')]"
    by code_simp
qed

theorem parse_description_slashes_witness:
  "wf_pairs [(''TRTP'', [''iDEAL'']), (''REMI'', [''FOO'', ''BAR 01-01-23'', ''31-01-23 '']),
             (''ORDP'', ['''']), (''ID'', [''99999999  ''])]
   \<and> ''TRTP'' \<in> set (map fst [(''TRTP'', [''iDEAL'']),
          (''REMI'', [''FOO'', ''BAR 01-01-23'', ''31-01-23 '']),
          (''ORDP'', ['''']), (''ID'', [''99999999  ''])])
   \<and> startswith ''/TRTP/iDEAL/REMI/FOO/BAR 01-01-23/31-01-23 /ORDP//ID/99999999  '' ''/''
   \<and> parse_description ''/TRTP/iDEAL/REMI/FOO/BAR 01-01-23/31-01-23 /ORDP//ID/99999999  ''
       = Inr [(''type'', ''SEPA iDEAL''), (''Omschrijving'', ''FOO/BAR 01-01-23/31-01-23'')]
   \<and> expected_fields [(''TRTP'', [''iDEAL'']),
          (''REMI'', [''FOO'', ''BAR 01-01-23'', ''31-01-23 '']),
          (''ORDP'', ['''']), (''ID'', [''99999999  ''])]
       = map_of [(''type'', ''SEPA iDEAL''), (''Omschrijving'', ''FOO/BAR 01-01-23/31-01-23'')]
   \<and> fst ` set [(''type'', ''SEPA iDEAL''), (''Omschrijving'', ''FOO/BAR 01-01-23/31-01-23'')]
       \<subseteq> set field_names"
proof -
  let ?K = "[(''TRTP'', [''iDEAL'']), (''REMI'', [''FOO'', ''BAR 01-01-23'', ''31-01-23 '']),
             (''ORDP'', ['''']), (''ID'', [''99999999  ''])]"
  let ?S = "''/TRTP/iDEAL/REMI/FOO/BAR 01-01-23/31-01-23 /ORDP//ID/99999999  ''"
  let ?D = "[(''type'', ''SEPA iDEAL''), (''Omschrijving'', ''FOO/BAR 01-01-23/31-01-23'')]"
  have wf: "wf_pairs ?K" and tr: "''TRTP'' \<in> set (map fst ?K)" and sl: "startswith ?S ''/''"
    and r: "render_pairs ?K = ?S" and p: "parse_description ?S = Inr ?D"
    by code_simp+
  from parse_description_slashes [of ?K ?S ?D] wf tr
  obtain d where "parse_description (render_pairs ?K) = Inr d" "map_of d = expected_fields ?K"
    by blast
  then have e: "expected_fields ?K = map_of ?D"
    unfolding r p by simp
  from parse_description_slashes [of ?K ?S ?D] sl p
  have k: "fst ` set ?D \<subseteq> set field_names"
    by blast
  from wf tr sl p e k show ?thesis
    by blast
qed

text \<open>
  Claim C9. On a text that starts with a slash the decoder is partial. When the first
  segment after the leading slash is none of the ten tags, it raises IndexError (the
  \<open>pop\<close> from the empty list). When the loop over the segments ends with complete
  tag/value pairs and no TRTP at a tag position, it raises KeyError at the read of
  \<open>data["type"]\<close>. (When the loop ends on a tag without a value, unpacking the last
  batch raises ValueError before that read: the decoder does not return then either.)
\<close>

theorem parse_description_slash_partial:
  "(startswith s ''/'' \<and> \<not> is_tag (hd (split_on (CHR ''/'') (drop 1 s)))
      \<longrightarrow> parse_description s = Inl IndexError)
   \<and> (startswith s ''/'' \<and> slash_loop [] (split_on (CHR ''/'') (drop 1 s)) = Inr parts
        \<and> even (length parts) \<and> ''TRTP'' \<notin> set (tags_of parts)
      \<longrightarrow> parse_description s = Inl KeyError)
   \<and> (startswith s ''/'' \<and> slash_loop [] (split_on (CHR ''/'') (drop 1 s)) = Inr parts
        \<and> odd (length parts)
      \<longrightarrow> parse_description s = Inl ValueError)"
  using parse_slashes_first_not_tag parse_slashes_no_TRTP parse_slashes_dangling by blast

theorem parse_description_slash_partial_witness:
  "startswith ''/foo/TRTP/SEPA OVERBOEKING'' ''/''
   \<and> \<not> is_tag (hd (split_on (CHR ''/'') (drop 1 ''/foo/TRTP/SEPA OVERBOEKING'')))
   \<and> parse_description ''/foo/TRTP/SEPA OVERBOEKING'' = Inl IndexError
   \<and> startswith ''/NAME/Albert Heijn B.V./IBAN/NL00INGB0123456789'' ''/''
   \<and> slash_loop [] (split_on (CHR ''/'') (drop 1 ''/NAME/Albert Heijn B.V./IBAN/NL00INGB0123456789''))
       = Inr [''NAME'', ''Albert Heijn B.V.'', ''IBAN'', ''NL00INGB0123456789'']
   \<and> even (length [''NAME'', ''Albert Heijn B.V.'', ''IBAN'', ''NL00INGB0123456789''])
   \<and> ''TRTP'' \<notin> set (tags_of [''NAME'', ''Albert Heijn B.V.'', ''IBAN'', ''NL00INGB0123456789''])
   \<and> parse_description ''/NAME/Albert Heijn B.V./IBAN/NL00INGB0123456789'' = Inl KeyError
   \<and> startswith ''/NAME'' ''/''
   \<and> slash_loop [] (split_on (CHR ''/'') (drop 1 ''/NAME'')) = Inr [''NAME'']
   \<and> odd (length [''NAME''])
   \<and> parse_description ''/NAME'' = Inl ValueError"
proof -
  let ?s1 = "''/foo/TRTP/SEPA OVERBOEKING''"
  let ?s2 = "''/NAME/Albert Heijn B.V./IBAN/NL00INGB0123456789''"
  let ?p2 = "[''NAME'', ''Albert Heijn B.V.'', ''IBAN'', ''NL00INGB0123456789'']"
  have a1: "startswith ?s1 ''/''"
    and a2: "\<not> is_tag (hd (split_on (CHR ''/'') (drop 1 ?s1)))"
    and b1: "startswith ?s2 ''/''"
    and b2: "slash_loop [] (split_on (CHR ''/'') (drop 1 ?s2)) = Inr ?p2"
    and b3: "even (length ?p2)" and b4: "''TRTP'' \<notin> set (tags_of ?p2)"
    and c1: "startswith ''/NAME'' ''/''"
    and c2: "slash_loop [] (split_on (CHR ''/'') (drop 1 ''/NAME'')) = Inr [''NAME'']"
    and c3: "odd (length [''NAME''])"
    by code_simp+
  from parse_description_slash_partial [of ?s1 "[]"] a1 a2
  have r1: "parse_description ?s1 = Inl IndexError" by blast
  from parse_description_slash_partial [of ?s2 ?p2] b1 b2 b3 b4
  have r2: "parse_description ?s2 = Inl KeyError" by blast
  from parse_description_slash_partial [of "''/NAME''" "[''NAME'']"] c1 c2 c3
  have r3: "parse_description ''/NAME'' = Inl ValueError" by blast
  from a1 a2 r1 b1 b2 b3 b4 r2 c1 c2 c3 r3 show ?thesis by blast
qed

section \<open>Properties of the transactions of the tab-separated export\<close>




section \<open>Properties of the money format\<close>

lemma of_char_digit_char: "d < 10 \<Longrightarrow> (of_char (digit_char d) :: nat) = 48 + d"
  by (simp add: digit_char_def)

lemma int_of_char_digit_char: "d < 10 \<Longrightarrow> (of_char (digit_char d) :: int) = 48 + int d"
proof -
  assume "d < 10"
  have "(of_char (digit_char d) :: int) = int (of_char (digit_char d))"
    by (simp only: of_nat_of_char)
  then show ?thesis using of_char_digit_char[OF \<open>d < 10\<close>] by simp
qed

lemma isdigit_digit_char: "d < 10 \<Longrightarrow> isdigit (digit_char d)"
  by (simp add: isdigit_def of_char_digit_char)

lemma str_nat_digits: "list_all isdigit (str_nat n)"
proof (induction n rule: str_nat.induct)
  case (1 n)
  then show ?case
    by (subst str_nat.simps) (simp add: isdigit_digit_char)
qed

lemma str_nat_nonempty: "str_nat n \<noteq> []"
  by (subst str_nat.simps) simp

lemma digits_value_snoc: "digits_value (ds @ [c]) = 10 * digits_value ds + (of_char c - 48)"
  by (simp add: digits_value_def)

lemma digits_value_str_nat: "digits_value (str_nat n) = int n"
proof (induction n rule: str_nat.induct)
  case (1 n)
  show ?case
  proof (cases "n < 10")
    case True
    then show ?thesis
      by (subst str_nat.simps) (simp add: digits_value_def int_of_char_digit_char)
  next
    case False
    then have "digits_value (str_nat n) = 10 * digits_value (str_nat (n div 10)) + int (n mod 10)"
      by (subst str_nat.simps) (simp add: digits_value_snoc int_of_char_digit_char)
    then show ?thesis using 1 False by (simp add: zmod_int zdiv_int)
  qed
qed

lemma digits_value_append:
  "digits_value (xs @ ys) = digits_value xs * 10 ^ length ys + digits_value ys"
proof (induction ys rule: rev_induct)
  case Nil
  then show ?case by (simp add: digits_value_def)
next
  case (snoc y ys)
  have "digits_value (xs @ ys @ [y]) = 10 * digits_value (xs @ ys) + (of_char y - 48)"
    using digits_value_snoc[of "xs @ ys" y] by simp
  then show ?case using snoc by (simp add: digits_value_snoc algebra_simps)
qed

lemma digits_value_zeros: "digits_value (replicate k (CHR ''0'') @ s) = digits_value s"
proof -
  have "digits_value (replicate k (CHR ''0'')) = 0"
  proof (induction k)
    case 0
    then show ?case by (simp add: digits_value_def)
  next
    case (Suc k)
    have "replicate (Suc k) (CHR ''0'') = replicate k (CHR ''0'') @ [CHR ''0'']"
      by (simp add: replicate_append_same)
    then show ?case using Suc by (simp only: digits_value_snoc) simp
  qed
  then show ?thesis by (simp add: digits_value_append)
qed

lemma length_str_nat_lt_100:
  assumes "k < 100"
  shows "length (str_nat k) \<le> 2"
proof (cases "k < 10")
  case True
  then show ?thesis by (subst str_nat.simps) simp
next
  case False
  have "k div 10 < 10" using assms by simp
  then have "length (str_nat (k div 10)) = 1" by (subst str_nat.simps) simp
  then show ?thesis using False by (subst str_nat.simps) simp
qed

lemma zfill2_cents:
  assumes "k < 100"
  shows "length (zfill 2 (str_nat k)) = 2" "list_all isdigit (zfill 2 (str_nat k))"
    "digits_value (zfill 2 (str_nat k)) = int k"
proof -
  show "length (zfill 2 (str_nat k)) = 2"
    using length_str_nat_lt_100[OF assms] by (simp add: zfill_def)
  show "list_all isdigit (zfill 2 (str_nat k))"
    using str_nat_digits[of k] by (auto simp: zfill_def list_all_iff isdigit_def)
  show "digits_value (zfill 2 (str_nat k)) = int k"
    by (simp add: zfill_def digits_value_zeros digits_value_str_nat)
qed

lemma round_half_even_nearest:
  assumes "0 < p"
  shows "2 * \<bar>int (round_half_even c p) * int p - int c\<bar> \<le> int p
         \<and> (2 * \<bar>int (round_half_even c p) * int p - int c\<bar> = int p
              \<longrightarrow> even (round_half_even c p))"
proof -
  define q r where "q = c div p" and "r = c mod p"
  have c: "int c = int q * int p + int r"
    unfolding q_def r_def by (metis div_mult_mod_eq of_nat_add of_nat_mult)
  have r: "r < p" using assms by (simp add: r_def)
  show ?thesis
  proof (cases "p < 2 * r \<or> (2 * r = p \<and> odd q)")
    case True
    then have rhe: "round_half_even c p = q + 1"
      by (simp add: round_half_even_def q_def r_def)
    have "int (q + 1) * int p - int c = int p - int r"
      by (simp add: c algebra_simps)
    then show ?thesis unfolding rhe using True r by auto
  next
    case False
    then have rhe: "round_half_even c p = q"
      by (simp add: round_half_even_def q_def r_def)
    have "int q * int p - int c = - int r"
      by (simp add: c)
    then show ?thesis unfolding rhe using False r by auto
  qed
qed

lemma format_2f_shape:
  "\<exists>ip fp. format_2f d = (if negative d then ''-'' else '''') @ ip @ ''.'' @ fp
     \<and> ip \<noteq> [] \<and> list_all isdigit ip \<and> length fp = 2 \<and> list_all isdigit fp
     \<and> digits_value (ip @ fp) = int (cents d)"
proof -
  let ?ip = "str_nat (cents d div 100)" and ?fp = "zfill 2 (str_nat (cents d mod 100))"
  have k: "cents d mod 100 < 100" by simp
  have "digits_value (?ip @ ?fp) = int (cents d div 100) * 100 + int (cents d mod 100)"
    by (simp add: digits_value_append zfill2_cents[OF k] digits_value_str_nat)
  also have "\<dots> = int (cents d)"
    by (simp add: zmod_int zdiv_int)
  finally have "digits_value (?ip @ ?fp) = int (cents d)" .
  then show ?thesis
    using str_nat_nonempty str_nat_digits zfill2_cents[OF k]
    by (intro exI[of _ ?ip] exI[of _ ?fp]) (simp add: format_2f_def)
qed

lemma digit_chars:
  "digit_char 0 = CHR ''0''" "digit_char (Suc 0) = CHR ''1''" "digit_char 2 = CHR ''2''"
  "digit_char 3 = CHR ''3''" "digit_char 4 = CHR ''4''" "digit_char 5 = CHR ''5''"
  "digit_char 6 = CHR ''6''" "digit_char 7 = CHR ''7''" "digit_char 8 = CHR ''8''"
  "digit_char 9 = CHR ''9''"
  by code_simp+

text \<open>
  Claim C4, as amended. For every (finite) amount, \<open>money_format\<close> returns an optional
  minus sign, at least one digit, a dot and exactly two digits, and the digits read as a
  count of cents are the amount rounded to the nearest cent, where an amount that lies half
  a cent between two cents is rounded to the even one of them: when the exponent is at
  least \<open>-2\<close> the count is exact, and otherwise it is within half a cent of the amount and
  even whenever it is exactly half a cent away. In particular 0.001 gives \<open>0.00\<close>, 0.99
  gives \<open>0.99\<close> and 1000 gives \<open>1000.00\<close>.
\<close>

theorem money_format_half_even:
  "(\<exists>ip fp. money_format m = (if negative (money_amount m) then ''-'' else '''') @ ip @ ''.'' @ fp
       \<and> ip \<noteq> [] \<and> list_all isdigit ip \<and> length fp = 2 \<and> list_all isdigit fp
       \<and> digits_value (ip @ fp) = int (cents (money_amount m)))
   \<and> (- 2 \<le> exponent (money_amount m)
      \<longrightarrow> cents (money_amount m)
          = coefficient (money_amount m) * 10 ^ nat (exponent (money_amount m) + 2))
   \<and> (exponent (money_amount m) < - 2
      \<longrightarrow> 2 * \<bar>int (cents (money_amount m)) * 10 ^ nat (- 2 - exponent (money_amount m))
                - int (coefficient (money_amount m))\<bar>
            \<le> 10 ^ nat (- 2 - exponent (money_amount m))
          \<and> (2 * \<bar>int (cents (money_amount m)) * 10 ^ nat (- 2 - exponent (money_amount m))
                   - int (coefficient (money_amount m))\<bar>
               = 10 ^ nat (- 2 - exponent (money_amount m))
             \<longrightarrow> even (cents (money_amount m))))
   \<and> money_format \<lparr>money_amount = \<lparr>negative = False, coefficient = 1, exponent = - 3\<rparr>,
                     money_currency = ''EUR''\<rparr> = ''0.00''
   \<and> money_format \<lparr>money_amount = \<lparr>negative = False, coefficient = 99, exponent = - 2\<rparr>,
                     money_currency = ''EUR''\<rparr> = ''0.99''
   \<and> money_format \<lparr>money_amount = \<lparr>negative = False, coefficient = 1000, exponent = 0\<rparr>,
                     money_currency = ''EUR''\<rparr> = ''1000.00''"
proof -
  let ?d = "money_amount m"
  let ?p = "10 ^ nat (- 2 - exponent ?d) :: nat"
  have shape: "\<exists>ip fp. money_format m = (if negative ?d then ''-'' else '''') @ ip @ ''.'' @ fp
       \<and> ip \<noteq> [] \<and> list_all isdigit ip \<and> length fp = 2 \<and> list_all isdigit fp
       \<and> digits_value (ip @ fp) = int (cents ?d)"
    unfolding money_format_def by (rule format_2f_shape)
  have exact: "cents ?d = coefficient ?d * 10 ^ nat (exponent ?d + 2)" if "- 2 \<le> exponent ?d"
    using that by (simp add: cents_def)
  have near: "2 * \<bar>int (cents ?d) * 10 ^ nat (- 2 - exponent ?d) - int (coefficient ?d)\<bar>
                \<le> 10 ^ nat (- 2 - exponent ?d)
              \<and> (2 * \<bar>int (cents ?d) * 10 ^ nat (- 2 - exponent ?d) - int (coefficient ?d)\<bar>
                    = 10 ^ nat (- 2 - exponent ?d)
                  \<longrightarrow> even (cents ?d))"
    if "exponent ?d < - 2"
  proof -
    have "cents ?d = round_half_even (coefficient ?d) ?p"
      using that by (simp add: cents_def)
    moreover have "0 < ?p" by simp
    ultimately show ?thesis
      using round_half_even_nearest[of ?p "coefficient ?d"] by simp
  qed
  have ex: "money_format \<lparr>money_amount = \<lparr>negative = False, coefficient = 1, exponent = - 3\<rparr>,
                     money_currency = ''EUR''\<rparr> = ''0.00''"
    "money_format \<lparr>money_amount = \<lparr>negative = False, coefficient = 99, exponent = - 2\<rparr>,
                     money_currency = ''EUR''\<rparr> = ''0.99''"
    "money_format \<lparr>money_amount = \<lparr>negative = False, coefficient = 1000, exponent = 0\<rparr>,
                     money_currency = ''EUR''\<rparr> = ''1000.00''"
    by (simp_all add: money_format_def format_2f_def cents_def round_half_even_def
          str_nat.simps zfill_def digit_chars)
  from shape exact near ex show ?thesis by blast
qed

theorem money_format_half_even_witness:
  "exponent \<lparr>negative = False, coefficient = 125, exponent = - 3\<rparr> < - 2
   \<and> cents \<lparr>negative = False, coefficient = 125, exponent = - 3\<rparr> = 12
   \<and> 2 * \<bar>int (cents \<lparr>negative = False, coefficient = 125, exponent = - 3\<rparr>) * 10 ^ nat 1
            - int 125\<bar> = 10 ^ nat 1
   \<and> even (cents \<lparr>negative = False, coefficient = 125, exponent = - 3\<rparr>)
   \<and> money_format \<lparr>money_amount = \<lparr>negative = False, coefficient = 125, exponent = - 3\<rparr>,
                     money_currency = ''EUR''\<rparr> = ''0.12''
   \<and> - 2 \<le> exponent \<lparr>negative = True, coefficient = 1234, exponent = - 2\<rparr>
   \<and> cents \<lparr>negative = True, coefficient = 1234, exponent = - 2\<rparr> = 1234
   \<and> money_format \<lparr>money_amount = \<lparr>negative = True, coefficient = 1234, exponent = - 2\<rparr>,
                     money_currency = ''EUR''\<rparr> = ''-12.34''"
proof -
  let ?a = "\<lparr>negative = False, coefficient = 125, exponent = - 3\<rparr>"
  let ?b = "\<lparr>negative = True, coefficient = 1234, exponent = - 2\<rparr>"
  let ?m = "\<lparr>money_amount = ?a, money_currency = ''EUR''\<rparr>"
  let ?n = "\<lparr>money_amount = ?b, money_currency = ''EUR''\<rparr>"
  have c: "cents ?a = 12"
    by (simp add: cents_def round_half_even_def)
  have h: "exponent ?a < - 2" by simp
  have tie: "2 * \<bar>int (cents ?a) * 10 ^ nat 1 - int 125\<bar> = 10 ^ nat 1"
    unfolding c by simp
  from money_format_half_even [of ?m] h tie have ev: "even (cents ?a)"
    by simp
  have g: "- 2 \<le> exponent ?b" by simp
  from money_format_half_even [of ?n] g have e: "cents ?b = 1234"
    by simp
  have f: "money_format ?m = ''0.12''" "money_format ?n = ''-12.34''"
    by (simp_all add: money_format_def format_2f_def cents_def round_half_even_def
          str_nat.simps zfill_def digit_chars)
  from c h tie ev g e f show ?thesis
    by (intro conjI)
qed

text \<open>
  The claim as stated fails: one eighth, 0.125, lies half a cent between 0.12 and 0.13;
  rounding half up gives \<open>0.13\<close>, and \<open>money_format\<close> gives \<open>0.12\<close>.
\<close>

theorem money_format_half_even_counterexample:
  "money_format \<lparr>money_amount = \<lparr>negative = False, coefficient = 125, exponent = - 3\<rparr>,
                  money_currency = ''EUR''\<rparr> = ''0.12''
   \<and> money_format_half_up \<lparr>money_amount = \<lparr>negative = False, coefficient = 125, exponent = - 3\<rparr>,
                              money_currency = ''EUR''\<rparr> = ''0.13''
   \<and> money_format \<lparr>money_amount = \<lparr>negative = False, coefficient = 125, exponent = - 3\<rparr>,
                    money_currency = ''EUR''\<rparr>
       \<noteq> money_format_half_up \<lparr>money_amount = \<lparr>negative = False, coefficient = 125, exponent = - 3\<rparr>,
                                 money_currency = ''EUR''\<rparr>"
  by (simp add: money_format_def money_format_half_up_def format_2f_def cents_def
        cents_half_up_def round_half_even_def round_half_up_def str_nat.simps zfill_def
        digit_chars)

section \<open>Properties of reading the export\<close>

lemma read_rows_orders:
  "read_rows L n rows = (ts, e) \<Longrightarrow>
     map order ts = map (\<lambda>i. n + 1 + int i) [0..<length ts]
     \<and> length ts \<le> length rows
     \<and> (\<forall>i<length ts. make_transaction L (n + 1 + int i) (rows ! i) = Inr (ts ! i))"
proof (induction rows arbitrary: n ts e)
  case Nil
  then show ?case by simp
next
  case (Cons r rs)
  show ?case
  proof (cases "make_transaction L (n + 1) r")
    case (Inl err)
    with Cons.prems show ?thesis by simp
  next
    case (Inr t)
    obtain ts' e' where rest: "read_rows L (n + 1) rs = (ts', e')"
      by (cases "read_rows L (n + 1) rs")
    with Cons.prems Inr have ts: "ts = t # ts'" by simp
    from Cons.IH[OF rest] have
      o: "map order ts' = map (\<lambda>i. n + 1 + 1 + int i) [0..<length ts']"
      and l: "length ts' \<le> length rs"
      and m: "\<forall>i<length ts'. make_transaction L (n + 1 + 1 + int i) (rs ! i) = Inr (ts' ! i)"
      by simp_all
    have ord: "order t = n + 1"
      using Inr by (auto simp: make_transaction_def split: list.splits sum.splits)
    have "map order ts = (n + 1) # map (\<lambda>i. n + 1 + 1 + int i) [0..<length ts']"
      by (simp add: ts ord o)
    also have "\<dots> = map (\<lambda>i. n + 1 + int i) [0..<length ts]"
      by (simp add: ts upt_rec[of 0 "Suc (length ts')"] map_Suc_upt[symmetric] del: upt_Suc)
    finally have 1: "map order ts = map (\<lambda>i. n + 1 + int i) [0..<length ts]" .
    have 2: "length ts \<le> length (r # rs)" using l by (simp add: ts)
    have 3: "make_transaction L (n + 1 + int i) ((r # rs) ! i) = Inr (ts ! i)"
      if "i < length ts" for i
    proof (cases i)
      case 0
      then show ?thesis using Inr by (simp add: ts)
    next
      case (Suc j)
      then have "j < length ts'" using that by (simp add: ts)
      with m have "make_transaction L (n + 1 + 1 + int j) (rs ! j) = Inr (ts' ! j)" by simp
      then show ?thesis by (simp add: Suc ts add.commute add.left_commute)
    qed
    from 1 2 3 show ?thesis by blast
  qed
qed

lemma read_tsv_emitted:
  assumes "read_tsv L file = (ts, e)"
  shows "\<exists>e'. read_rows L 0 (fst (csv_reader L (filter_comments file))) = (ts, e')"
proof -
  obtain rows re where r: "csv_reader L (filter_comments file) = (rows, re)"
    by (cases "csv_reader L (filter_comments file)")
  obtain ts' e' where rr: "read_rows L 0 rows = (ts', e')"
    by (cases "read_rows L 0 rows")
  from assms have "ts = ts'"
    by (cases e') (simp_all add: read_tsv_def r rr)
  then show ?thesis using r rr by simp
qed

lemma filter_comments_skip:
  "startswith (lstrip c) ''#'' \<or> strip c = [] \<Longrightarrow>
     filter_comments (xs @ c # ys) = filter_comments (xs @ ys)"
  by (auto simp: filter_comments_def)

text \<open>
  Claim C5. The transactions \<open>read_tsv\<close> yields carry the orders 1, 2, 3, ... in the
  order they are yielded, whatever the library functions do and whether or not an
  exception ends the reading: the sequence is strictly increasing, and the transaction at
  position \<open>i\<close> (from 0) is made from row \<open>i\<close> of the reader with order \<open>i + 1\<close>. Three
  transactions carry exactly 1, 2, 3. A comment line or a blank line anywhere in the
  input changes nothing.
\<close>

theorem read_tsv_order:
  "read_tsv L file = (ts, e) \<Longrightarrow>
     map order ts = map int [1..<Suc (length ts)]
     \<and> sorted_wrt (<) (map order ts)
     \<and> length ts \<le> length (fst (csv_reader L (filter_comments file)))
     \<and> (\<forall>i<length ts. make_transaction L (int i + 1)
                          (fst (csv_reader L (filter_comments file)) ! i) = Inr (ts ! i))
     \<and> (length ts = 3 \<longrightarrow> map order ts = [1, 2, 3])
     \<and> (startswith (lstrip c) ''#'' \<or> strip c = []
          \<longrightarrow> read_tsv L (xs @ c # ys) = read_tsv L (xs @ ys))"
proof -
  assume "read_tsv L file = (ts, e)"
  then obtain e' where "read_rows L 0 (fst (csv_reader L (filter_comments file))) = (ts, e')"
    using read_tsv_emitted by blast
  from read_rows_orders[OF this] have
    o: "map order ts = map (\<lambda>i. 1 + int i) [0..<length ts]"
    and l: "length ts \<le> length (fst (csv_reader L (filter_comments file)))"
    and m: "\<forall>i<length ts. make_transaction L (1 + int i)
               (fst (csv_reader L (filter_comments file)) ! i) = Inr (ts ! i)"
    by simp_all
  have "map (\<lambda>i. 1 + int i) [0..<length ts] = map int [1..<Suc (length ts)]"
    by (simp add: map_Suc_upt[symmetric] del: upt_Suc)
  with o have 1: "map order ts = map int [1..<Suc (length ts)]" by simp
  have 2: "sorted_wrt (<) (map order ts)"
    unfolding 1 by (simp add: sorted_wrt_map del: upt_Suc)
  have 3: "map order ts = [1, 2, 3]" if "length ts = 3"
    unfolding 1 that by (simp add: upt_rec)
  have 4: "\<forall>i<length ts. make_transaction L (int i + 1)
               (fst (csv_reader L (filter_comments file)) ! i) = Inr (ts ! i)"
    using m by (simp add: add.commute)
  have 5: "read_tsv L (xs @ c # ys) = read_tsv L (xs @ ys)"
    if "startswith (lstrip c) ''#'' \<or> strip c = []"
    using filter_comments_skip[OF that] by (simp add: read_tsv_def)
  from 1 2 l 3 4 5 show ?thesis by blast
qed

theorem read_tsv_order_witness:
  "length (fst (read_tsv plain_library example_file)) = 3
   \<and> snd (read_tsv plain_library example_file) = None
   \<and> map order (fst (read_tsv plain_library example_file)) = [1, 2, 3]
   \<and> sorted_wrt (<) (map order (fst (read_tsv plain_library example_file)))
   \<and> strip ''   '' = []
   \<and> read_tsv plain_library (''   '' # example_file) = read_tsv plain_library example_file"
proof -
  let ?r = "read_tsv plain_library example_file"
  have len: "length (fst ?r) = 3" and none: "snd ?r = None" and blank: "strip ''   '' = []"
    by code_simp+
  have "read_tsv plain_library example_file = (fst ?r, snd ?r)"
    by simp
  from read_tsv_order [OF this, of "''   ''" "[]" example_file] len blank
  have o: "map order (fst ?r) = [1, 2, 3]" and s: "sorted_wrt (<) (map order (fst ?r))"
    and "read_tsv plain_library ([] @ ''   '' # example_file)
         = read_tsv plain_library ([] @ example_file)"
    by blast+
  then have "read_tsv plain_library (''   '' # example_file) = read_tsv plain_library example_file"
    by (simp only: append_Nil)
  with len none blank o s show ?thesis by blast
qed

text \<open>
  A row that cannot be converted ends the reading before anything more is yielded: the
  information separator before the account number is no whitespace for \<open>int\<close>.
\<close>

lemma read_tsv_bad_account:
  "py_int (CHR 0x1F # ''1234'') = Inl ValueError
   \<and> read_tsv plain_library
        [join_tabs [CHR 0x1F # ''1234'', ''EUR'', ''20240101'', ''5,00'', ''4,00'', ''20240101'',
                    ''-1,00'', ''/TRTP/SEPA OVERBOEKING/NAME/Foo'']]
       = ([], Some ValueError)"
  by code_simp

section \<open>Properties of the credit-card statements\<close>

text \<open>
  When both candidate dates exist, \<open>convert_date\<close> returns one of them, and none of the
  two is nearer to the date of the statement than the one returned; at equal distances it
  is the candidate of the year before.
\<close>

lemma convert_date_closest:
  assumes "split_ws text = [dd, mmm]" "py_int dd = Inr d" "map_of MONTHS_SHORT mmm = Some m"
    and "Page.date self = Some sd"
    and "mk_date (year sd) m d = Inr dt1" "mk_date (year sd - 1) m d = Inr dt2"
  shows "\<exists>r. convert_date self text = Inr r \<and> (r = dt1 \<or> r = dt2)
           \<and> \<bar>days_between sd r\<bar> \<le> \<bar>days_between sd dt1\<bar>
           \<and> \<bar>days_between sd r\<bar> \<le> \<bar>days_between sd dt2\<bar>
           \<and> (\<bar>days_between sd dt1\<bar> = \<bar>days_between sd dt2\<bar> \<longrightarrow> r = dt2)"
  using assms by (auto simp: convert_date_def)

lemma convert_date_example:
  "convert_date \<lparr>nr = 1, Page.date = Some \<lparr>year = 2023, month = 2, day = 1\<rparr>,
                  page_nr = Some 1, total_pages = Some 1, table = ([] :: (int \<times> string list) list)\<rparr>
     ''09 dec'' = Inr \<lparr>year = 2022, month = 12, day = 9\<rparr>"
  by code_simp

text \<open>
  Of two years in a row at most one is a leap year, so for the 29th of February one of the
  two candidates never exists, and \<open>convert_date\<close> raises ValueError on every statement.
\<close>

lemma mk_date_error: "mk_date y m d = Inl e \<Longrightarrow> e = ValueError"
  by (auto simp: mk_date_def split: if_splits)

lemma convert_date_leap_day:
  assumes "Page.date self = Some sd"
  shows "convert_date self ''29 feb'' = Inl ValueError"
proof -
  have w: "split_ws ''29 feb'' = [''29'', ''feb'']" and i: "py_int ''29'' = Inr 29"
    and m: "map_of MONTHS_SHORT ''feb'' = Some 2"
    by code_simp+
  have "\<not> (is_leap (year sd) \<and> is_leap (year sd - 1))"
    unfolding is_leap_def by presburger
  then have "mk_date (year sd) 2 29 = Inl ValueError \<or> mk_date (year sd - 1) 2 29 = Inl ValueError"
    by (auto simp: mk_date_def days_in_month_def)
  then show ?thesis
    using assms by (auto simp: convert_date_def w i m split: sum.splits dest: mk_date_error)
qed

text \<open>
  Claim C6. The claim fails on the code: on the statement of 1 March 2024 the text
  \<open>29 feb\<close> names the day before the statement, and the candidate in the year of the
  statement exists, at a distance of one day; \<open>convert_date\<close> raises ValueError,
  because it builds the candidate of 2023 as well, which does not exist.
\<close>

theorem convert_date_leap_day_fails:
  "convert_date \<lparr>nr = 1, Page.date = Some \<lparr>year = 2024, month = 3, day = 1\<rparr>,
                  page_nr = Some 1, total_pages = Some 1, table = ([] :: (int \<times> string list) list)\<rparr>
     ''29 feb'' = Inl ValueError
   \<and> mk_date 2024 2 29 = Inr \<lparr>year = 2024, month = 2, day = 29\<rparr>
   \<and> mk_date 2023 2 29 = Inl ValueError
   \<and> days_between \<lparr>year = 2024, month = 3, day = 1\<rparr> \<lparr>year = 2024, month = 2, day = 29\<rparr> = 1"
  by code_simp

subsection \<open>Foreign amount and exchange rate\<close>

lemma process_group_both:
  assumes "process_group L c rows = Inr (c', Some t)"
  shows "(foreign_amount t = None \<and> exchange_rate t = None)
         \<or> (foreign_amount t \<noteq> None \<and> exchange_rate t \<noteq> None)"
  using assms
  by (auto simp: process_group_def Let_def split: if_splits sum.splits)

lemma process_group_shape:
  assumes "process_group L c rows = Inr (c', Some t)" "[] \<notin> set rows"
  shows "(length rows = 1 \<and> foreign_amount t = None \<and> exchange_rate t = None)
         \<or> (length rows = 2 \<and> foreign_amount t \<noteq> None \<and> exchange_rate t \<noteq> None)"
proof -
  from assms(1) have len: "0 < length rows" "length rows \<le> 2"
    by (auto simp: process_group_def split: if_splits)
  then consider "length rows = 1" | "length rows = 2" by linarith
  then show ?thesis
  proof cases
    case 1
    with assms(1) show ?thesis
      by (auto simp: process_group_def Let_def split: if_splits sum.splits)
  next
    case 2
    then have "rows ! 1 \<in> set rows" by simp
    with assms(2) have "rows ! 1 \<noteq> []" by metis
    with 2 assms(1) show ?thesis
      by (auto simp: process_group_def Let_def split: if_splits sum.splits)
  qed
qed

lemma process_groups_both:
  "process_groups L c groups ge = (ts, e) \<Longrightarrow>
     list_all (\<lambda>t. (foreign_amount t = None) = (exchange_rate t = None)) ts"
proof (induction groups arbitrary: c ts e)
  case Nil
  then show ?case by simp
next
  case (Cons rows groups)
  show ?case
  proof (cases "process_group L c rows")
    case (Inl err)
    with Cons.prems show ?thesis by simp
  next
    case (Inr r)
    obtain c' out where r: "r = (c', out)" by (cases r)
    obtain ts' e' where rest: "process_groups L c' groups ge = (ts', e')"
      by (cases "process_groups L c' groups ge")
    have IH: "list_all (\<lambda>t. (foreign_amount t = None) = (exchange_rate t = None)) ts'"
      by (rule Cons.IH[OF rest])
    show ?thesis
    proof (cases out)
      case None
      with Cons.prems Inr r rest IH show ?thesis by simp
    next
      case (Some t)
      then have "process_group L c rows = Inr (c', Some t)" using Inr r by simp
      from process_group_both[OF this]
      have "(foreign_amount t = None) = (exchange_rate t = None)" by auto
      with Cons.prems Inr r rest IH Some show ?thesis by auto
    qed
  qed
qed

text \<open>
  Claim C8. Every transaction that \<open>get_transactions_from_pages\<close> yields, whatever the
  library functions return and whether or not an exception ends it, has its foreign amount
  and its exchange rate either both unset or both set. On a group of rows: a transaction
  yielded from a group of one row has both unset, one yielded from a group of two
  (non-empty) rows has both set.
\<close>

theorem foreign_amount_and_exchange_rate:
  "(get_transactions_from_pages L pages = (ts, e)
      \<longrightarrow> list_all (\<lambda>t. (foreign_amount t = None \<and> exchange_rate t = None)
                          \<or> (foreign_amount t \<noteq> None \<and> exchange_rate t \<noteq> None)) ts)
   \<and> (process_group L cardno rows = Inr (cardno', Some t) \<and> [] \<notin> set rows
      \<longrightarrow> (length rows = 1 \<and> foreign_amount t = None \<and> exchange_rate t = None)
          \<or> (length rows = 2 \<and> foreign_amount t \<noteq> None \<and> exchange_rate t \<noteq> None))"
proof (intro conjI impI)
  assume r: "get_transactions_from_pages L pages = (ts, e)"
  show "list_all (\<lambda>t. (foreign_amount t = None \<and> exchange_rate t = None)
                          \<or> (foreign_amount t \<noteq> None \<and> exchange_rate t \<noteq> None)) ts"
  proof (cases "convert_pages 1 None pages")
    case (Inl err)
    with r show ?thesis by (simp add: get_transactions_from_pages_def)
  next
    case (Inr all_rows)
    obtain groups ge where g: "group_related_rows all_rows = (groups, ge)"
      by (cases "group_related_rows all_rows")
    with r Inr have "process_groups L None groups ge = (ts, e)"
      by (simp add: get_transactions_from_pages_def)
    from process_groups_both[OF this] show ?thesis
      by (auto simp: list_all_iff)
  qed
next
  assume "process_group L cardno rows = Inr (cardno', Some t) \<and> [] \<notin> set rows"
  then show "(length rows = 1 \<and> foreign_amount t = None \<and> exchange_rate t = None)
          \<or> (length rows = 2 \<and> foreign_amount t \<noteq> None \<and> exchange_rate t \<noteq> None)"
    using process_group_shape by blast
qed

theorem foreign_amount_and_exchange_rate_witness:
  "length (fst (get_transactions_from_pages plain_pdf_library [example_page])) = 3
   \<and> snd (get_transactions_from_pages plain_pdf_library [example_page]) = None
   \<and> map (\<lambda>t. foreign_amount t = None)
        (fst (get_transactions_from_pages plain_pdf_library [example_page]))
       = [True, True, False]
   \<and> list_all (\<lambda>t. (foreign_amount t = None \<and> exchange_rate t = None)
                   \<or> (foreign_amount t \<noteq> None \<and> exchange_rate t \<noteq> None))
        (fst (get_transactions_from_pages plain_pdf_library [example_page]))"
proof -
  let ?r = "get_transactions_from_pages plain_pdf_library [example_page]"
  have ev: "length (fst ?r) = 3" "snd ?r = None"
    "map (\<lambda>t. foreign_amount t = None) (fst ?r) = [True, True, False]"
    by code_simp+
  have "?r = (fst ?r, snd ?r)" by simp
  with foreign_amount_and_exchange_rate
         [of plain_pdf_library "[example_page]" "fst ?r" "snd ?r"]
  have "list_all (\<lambda>t. (foreign_amount t = None \<and> exchange_rate t = None)
                   \<or> (foreign_amount t \<noteq> None \<and> exchange_rate t \<noteq> None)) (fst ?r)"
    by blast
  with ev show ?thesis by blast
qed

end
